theory Spec2Isabelle
  imports Complex_Main
begin

section \<open>A model of Go's float64\<close>

text \<open>
  The converter computes with Go's \<^verbatim>\<open>float64\<close> (IEEE 754 binary64, round to nearest,
  ties to even).  A finite value is kept as the exact rational number it denotes; the
  negative zero, the two infinities and NaN are separate constructors (NaN payloads are
  not distinguished).  \<^verbatim>\<open>Fin 0\<close> is the positive zero.  Every operation computes the exact
  rational result and rounds it once, as the hardware does.
\<close>

datatype float64 = Fin rat | NegZero | PosInf | NegInf | NaN

text \<open>
  \<^verbatim>\<open>ilog b n\<close>, for a base \<open>b \<ge> 2\<close> and \<open>n \<ge> 1\<close>, is the number of times \<open>n\<close> can be
  divided by \<open>b\<close> before it drops below \<open>b\<close>, that is \<open>\<lfloor>log\<^sub>b n\<rfloor>\<close>.
\<close>

function ilog :: "int \<Rightarrow> int \<Rightarrow> int" where
  "ilog b n = (if b < 2 \<or> n < b then 0 else 1 + ilog b (n div b))"
  by pat_completeness auto
termination
proof (relation "measure (\<lambda>(b, n). nat n)")
  show "wf (measure (\<lambda>(b, n). nat n))" by simp
next
  fix b n :: int
  assume "\<not> (b < 2 \<or> n < b)"
  then have b: "2 \<le> b" and n: "b \<le> n" by auto
  have "n div b < n"
    by (rule int_div_less_self) (use b n in auto)
  moreover have "0 < n" using b n by linarith
  ultimately show "((b, n div b), (b, n)) \<in> measure (\<lambda>(b, n). nat n)"
    by simp
qed

declare ilog.simps [simp del]

text \<open>
  \<^verbatim>\<open>flog b x\<close> is \<open>\<lfloor>log\<^sub>b x\<rfloor>\<close> for a positive rational \<open>x = p / q\<close>: the difference of the
  integer logarithms of \<open>p\<close> and \<open>q\<close> is either the answer or one above it.
\<close>

definition flog :: "int \<Rightarrow> rat \<Rightarrow> int" where
  "flog b x = (let (p, q) = quotient_of x; d = ilog b p - ilog b q
               in if of_int b powi d \<le> x then d else d - 1)"

text \<open>Rounding a rational to the nearest integer, a tie going to the even neighbour.\<close>

definition round_even :: "rat \<Rightarrow> int" where
  "round_even y = (let f = \<lfloor>y\<rfloor>; r = y - of_int f
                   in if r < 1 / 2 then f
                      else if 1 / 2 < r then f + 1
                      else if even f then f else f + 1)"

text \<open>
  \<^verbatim>\<open>f64_round x\<close> is the float64 nearest to the rational \<open>x\<close>.  For \<open>x \<noteq> 0\<close> the last
  place of the significand has weight \<open>2\<^sup>e\<close> with \<open>e = max (-1074) (\<lfloor>log\<^sub>2 |x|\<rfloor> - 52)\<close>
  (53 significant bits; subnormal numbers share the smallest exponent).  A result of
  magnitude \<open>2\<^sup>1\<^sup>0\<^sup>2\<^sup>4\<close> or more overflows to an infinity; a result that rounds to nothing
  is a zero with the sign of \<open>x\<close>.
\<close>

definition f64_round :: "rat \<Rightarrow> float64" where
  "f64_round x =
     (if x = 0 then Fin 0
      else let e = max (- 1074) (flog 2 \<bar>x\<bar> - 52);
               m = round_even (\<bar>x\<bar> / 2 powi e);
               y = of_int m * 2 powi e
           in if 2 powi 1024 \<le> y then (if x < 0 then NegInf else PosInf)
              else if m = 0 then (if x < 0 then NegZero else Fin 0)
              else Fin (if x < 0 then - y else y))"

text \<open>An untyped Go constant used as a float64 is the float64 nearest to its exact value.\<close>

definition lit :: "rat \<Rightarrow> float64" where
  "lit c = f64_round c"

fun is_nan :: "float64 \<Rightarrow> bool" where
  "is_nan NaN = True"
| "is_nan _ = False"

fun is_inf :: "float64 \<Rightarrow> bool" where
  "is_inf PosInf = True"
| "is_inf NegInf = True"
| "is_inf _ = False"

fun is_zero :: "float64 \<Rightarrow> bool" where
  "is_zero (Fin x) = (x = 0)"
| "is_zero NegZero = True"
| "is_zero _ = False"

text \<open>The sign bit; a finite value other than the two zeros carries its sign itself.\<close>

fun sign_bit :: "float64 \<Rightarrow> bool" where
  "sign_bit (Fin x) = (x < 0)"
| "sign_bit NegZero = True"
| "sign_bit NegInf = True"
| "sign_bit _ = False"

text \<open>The rational value of a finite float64 (both zeros are 0).\<close>

fun val :: "float64 \<Rightarrow> rat" where
  "val (Fin x) = x"
| "val _ = 0"

definition signed_zero :: "bool \<Rightarrow> float64" where
  "signed_zero s = (if s then NegZero else Fin 0)"

definition signed_inf :: "bool \<Rightarrow> float64" where
  "signed_inf s = (if s then NegInf else PosInf)"

fun fneg :: "float64 \<Rightarrow> float64" where
  "fneg (Fin x) = (if x = 0 then NegZero else Fin (- x))"
| "fneg NegZero = Fin 0"
| "fneg PosInf = NegInf"
| "fneg NegInf = PosInf"
| "fneg NaN = NaN"

text \<open>Go's \<^verbatim>\<open>x * y\<close> on float64.\<close>

definition fmul :: "float64 \<Rightarrow> float64 \<Rightarrow> float64" where
  "fmul a b =
     (if is_nan a \<or> is_nan b then NaN
      else let s = (sign_bit a \<noteq> sign_bit b)
           in if is_inf a \<or> is_inf b then (if is_zero a \<or> is_zero b then NaN else signed_inf s)
              else if is_zero a \<or> is_zero b then signed_zero s
              else f64_round (val a * val b))"

text \<open>Go's \<^verbatim>\<open>x / y\<close> on float64; dividing by a zero gives an infinity or NaN, never a panic.\<close>

definition fdiv :: "float64 \<Rightarrow> float64 \<Rightarrow> float64" where
  "fdiv a b =
     (if is_nan a \<or> is_nan b then NaN
      else let s = (sign_bit a \<noteq> sign_bit b)
           in if is_inf a then (if is_inf b then NaN else signed_inf s)
              else if is_inf b then signed_zero s
              else if is_zero b then (if is_zero a then NaN else signed_inf s)
              else if is_zero a then signed_zero s
              else f64_round (val a / val b))"

text \<open>
  Go's \<^verbatim>\<open>x + y\<close> on float64.  An exact sum of zero is the positive zero under round to
  nearest, unless both operands are negative zeros.
\<close>

definition fadd :: "float64 \<Rightarrow> float64 \<Rightarrow> float64" where
  "fadd a b =
     (if is_nan a \<or> is_nan b then NaN
      else if is_inf a then (if is_inf b \<and> sign_bit a \<noteq> sign_bit b then NaN else a)
      else if is_inf b then b
      else if is_zero a \<and> is_zero b then signed_zero (sign_bit a \<and> sign_bit b)
      else f64_round (val a + val b))"

definition fsub :: "float64 \<Rightarrow> float64 \<Rightarrow> float64" where
  "fsub a b = fadd a (fneg b)"

text \<open>
  Comparisons: NaN compares false with everything, the two zeros are equal, the
  infinities lie beyond every finite value.
\<close>

fun rank :: "float64 \<Rightarrow> int" where
  "rank PosInf = 1"
| "rank NegInf = - 1"
| "rank _ = 0"

definition f64_less :: "float64 \<Rightarrow> float64 \<Rightarrow> bool" where
  "f64_less a b =
     (\<not> is_nan a \<and> \<not> is_nan b \<and> (rank a < rank b \<or> (rank a = rank b \<and> val a < val b)))"

definition f64_le :: "float64 \<Rightarrow> float64 \<Rightarrow> bool" where
  "f64_le a b =
     (\<not> is_nan a \<and> \<not> is_nan b \<and> (rank a < rank b \<or> (rank a = rank b \<and> val a \<le> val b)))"

text \<open>\<^verbatim>\<open>math.Abs\<close> clears the sign bit.\<close>

fun math_Abs :: "float64 \<Rightarrow> float64" where
  "math_Abs (Fin x) = Fin \<bar>x\<bar>"
| "math_Abs NegZero = Fin 0"
| "math_Abs PosInf = PosInf"
| "math_Abs NegInf = PosInf"
| "math_Abs NaN = NaN"

text \<open>
  \<^verbatim>\<open>math.Round\<close> returns the nearest integer, rounding half away from zero; it keeps the
  sign of a value that rounds to zero, and returns zeros, infinities and NaN unchanged.
\<close>

fun math_Round :: "float64 \<Rightarrow> float64" where
  "math_Round (Fin x) =
     (let n = \<lfloor>\<bar>x\<bar> + 1 / 2\<rfloor>
      in if n = 0 then signed_zero (x < 0)
         else Fin (if x < 0 then - of_int n else of_int n))"
| "math_Round v = v"

declare math_Round.simps(1) [simp del]

text \<open>
  \<^verbatim>\<open>math.Pow(10, float64(precision))\<close> with \<^verbatim>\<open>precision = 12\<close>: \<open>10\<^sup>1\<^sup>2 = 5\<^sup>1\<^sup>2 \<sqdot> 2\<^sup>1\<^sup>2\<close> is a
  float64, and the repeated squaring of \<^verbatim>\<open>math.Pow\<close> computes it without rounding.
\<close>

definition math_Pow_10 :: "nat \<Rightarrow> float64" where
  "math_Pow_10 n = f64_round (10 ^ n)"

section \<open>The unit registry\<close>

record Unit =
  Factor :: float64
  Dimension :: string
  Name :: string
  Offset :: float64

record UnitConverter =
  units :: "string \<rightharpoonup> Unit"

text \<open>\<^verbatim>\<open>math.Pi\<close> is an untyped constant, declared in Go's math package with these digits.\<close>

definition math_Pi :: rat where
  "math_Pi = 3.14159265358979323846264338327950288419716939937510582097494459"

text \<open>
  The map literal of \<^verbatim>\<open>NewUnitConverter\<close>.  A constant expression such as \<^verbatim>\<open>5.0 / 9.0\<close> or
  \<^verbatim>\<open>math.Pi / 180\<close> is evaluated exactly and rounded once; a field that is left out is
  zero.  The symbols of the micro units and of the square and cubic meter are not
  ASCII: their keys are the UTF-8 bytes of the source text.
\<close>

definition unit_table :: "(string \<times> Unit) list" where
  "unit_table = [
     (''mg'', \<lparr>Factor = lit 0.001, Dimension = ''mass'', Name = ''Milligram'', Offset = lit 0\<rparr>),
     (''g'', \<lparr>Factor = lit 1, Dimension = ''mass'', Name = ''Gram'', Offset = lit 0\<rparr>),
     (''kg'', \<lparr>Factor = lit 1000, Dimension = ''mass'', Name = ''Kilogram'', Offset = lit 0\<rparr>),
     (''t'', \<lparr>Factor = lit 1000000, Dimension = ''mass'', Name = ''Tonne'', Offset = lit 0\<rparr>),
     (''oz'', \<lparr>Factor = lit 28.3495, Dimension = ''mass'', Name = ''Ounce'', Offset = lit 0\<rparr>),
     (''lb'', \<lparr>Factor = lit 453.59237, Dimension = ''mass'', Name = ''Pound'', Offset = lit 0\<rparr>),
     (''nm'', \<lparr>Factor = lit 0.000000001, Dimension = ''length'', Name = ''Nanometer'', Offset = lit 0\<rparr>),
     ([CHR 0xC2, CHR 0xB5, CHR ''m''], \<lparr>Factor = lit 0.000001, Dimension = ''length'', Name = ''Micrometer'', Offset = lit 0\<rparr>),
     (''mm'', \<lparr>Factor = lit 0.001, Dimension = ''length'', Name = ''Millimeter'', Offset = lit 0\<rparr>),
     (''cm'', \<lparr>Factor = lit 0.01, Dimension = ''length'', Name = ''Centimeter'', Offset = lit 0\<rparr>),
     (''m'', \<lparr>Factor = lit 1, Dimension = ''length'', Name = ''Meter'', Offset = lit 0\<rparr>),
     (''km'', \<lparr>Factor = lit 1000, Dimension = ''length'', Name = ''Kilometer'', Offset = lit 0\<rparr>),
     (''in'', \<lparr>Factor = lit 0.0254, Dimension = ''length'', Name = ''Inch'', Offset = lit 0\<rparr>),
     (''ft'', \<lparr>Factor = lit 0.3048, Dimension = ''length'', Name = ''Foot'', Offset = lit 0\<rparr>),
     (''yd'', \<lparr>Factor = lit 0.9144, Dimension = ''length'', Name = ''Yard'', Offset = lit 0\<rparr>),
     (''mi'', \<lparr>Factor = lit 1609.344, Dimension = ''length'', Name = ''Mile'', Offset = lit 0\<rparr>),
     (''C'', \<lparr>Factor = lit 1, Dimension = ''temperature'', Name = ''Celsius'', Offset = lit 273.15\<rparr>),
     (''F'', \<lparr>Factor = lit (5 / 9), Dimension = ''temperature'', Name = ''Fahrenheit'', Offset = lit 255.372\<rparr>),
     (''K'', \<lparr>Factor = lit 1, Dimension = ''temperature'', Name = ''Kelvin'', Offset = lit 0\<rparr>),
     (''Ra'', \<lparr>Factor = lit (5 / 9), Dimension = ''temperature'', Name = ''Rankine'', Offset = lit 0\<rparr>),
     (''ns'', \<lparr>Factor = lit (1 / 10 ^ 9), Dimension = ''time'', Name = ''Nanosecond'', Offset = lit 0\<rparr>),
     ([CHR 0xC2, CHR 0xB5, CHR ''s''], \<lparr>Factor = lit (1 / 10 ^ 6), Dimension = ''time'', Name = ''Microsecond'', Offset = lit 0\<rparr>),
     (''ms'', \<lparr>Factor = lit (1 / 10 ^ 3), Dimension = ''time'', Name = ''Millisecond'', Offset = lit 0\<rparr>),
     (''s'', \<lparr>Factor = lit 1, Dimension = ''time'', Name = ''Second'', Offset = lit 0\<rparr>),
     (''min'', \<lparr>Factor = lit 60, Dimension = ''time'', Name = ''Minute'', Offset = lit 0\<rparr>),
     (''h'', \<lparr>Factor = lit 3600, Dimension = ''time'', Name = ''Hour'', Offset = lit 0\<rparr>),
     (''day'', \<lparr>Factor = lit 86400, Dimension = ''time'', Name = ''Day'', Offset = lit 0\<rparr>),
     (''week'', \<lparr>Factor = lit 604800, Dimension = ''time'', Name = ''Week'', Offset = lit 0\<rparr>),
     (''year'', \<lparr>Factor = lit 31536000, Dimension = ''time'', Name = ''Year (365 days)'', Offset = lit 0\<rparr>),
     (''Hz'', \<lparr>Factor = lit 1, Dimension = ''frequency'', Name = ''Hertz'', Offset = lit 0\<rparr>),
     (''kHz'', \<lparr>Factor = lit 1000, Dimension = ''frequency'', Name = ''Kilohertz'', Offset = lit 0\<rparr>),
     (''MHz'', \<lparr>Factor = lit (10 ^ 6), Dimension = ''frequency'', Name = ''Megahertz'', Offset = lit 0\<rparr>),
     (''GHz'', \<lparr>Factor = lit (10 ^ 9), Dimension = ''frequency'', Name = ''Gigahertz'', Offset = lit 0\<rparr>),
     (''THz'', \<lparr>Factor = lit (10 ^ 12), Dimension = ''frequency'', Name = ''Terahertz'', Offset = lit 0\<rparr>),
     (''m/s'', \<lparr>Factor = lit 1, Dimension = ''speed'', Name = ''Meters per second'', Offset = lit 0\<rparr>),
     (''km/h'', \<lparr>Factor = lit 0.277778, Dimension = ''speed'', Name = ''Kilometers per hour'', Offset = lit 0\<rparr>),
     (''ft/s'', \<lparr>Factor = lit 0.3048, Dimension = ''speed'', Name = ''Feet per second'', Offset = lit 0\<rparr>),
     (''mph'', \<lparr>Factor = lit 0.44704, Dimension = ''speed'', Name = ''Miles per hour'', Offset = lit 0\<rparr>),
     (''knot'', \<lparr>Factor = lit 0.514444, Dimension = ''speed'', Name = ''Knot'', Offset = lit 0\<rparr>),
     (''mach'', \<lparr>Factor = lit 340.29, Dimension = ''speed'', Name = ''Mach (at sea level)'', Offset = lit 0\<rparr>),
     ([CHR ''m'', CHR 0xC2, CHR 0xB3], \<lparr>Factor = lit 1, Dimension = ''volume'', Name = ''Cubic Meter'', Offset = lit 0\<rparr>),
     (''L'', \<lparr>Factor = lit 0.001, Dimension = ''volume'', Name = ''Liter'', Offset = lit 0\<rparr>),
     (''gal'', \<lparr>Factor = lit 0.003785411784, Dimension = ''volume'', Name = ''Gallon (US)'', Offset = lit 0\<rparr>),
     (''fl_oz'', \<lparr>Factor = lit 0.0000295735295625, Dimension = ''volume'', Name = ''Fluid Ounce (US)'', Offset = lit 0\<rparr>),
     ([CHR ''m'', CHR 0xC2, CHR 0xB2], \<lparr>Factor = lit 1, Dimension = ''area'', Name = ''Square Meter'', Offset = lit 0\<rparr>),
     (''acre'', \<lparr>Factor = lit 4046.8564224, Dimension = ''area'', Name = ''Acre'', Offset = lit 0\<rparr>),
     (''ha'', \<lparr>Factor = lit 10000, Dimension = ''area'', Name = ''Hectare'', Offset = lit 0\<rparr>),
     (''J'', \<lparr>Factor = lit 1, Dimension = ''energy'', Name = ''Joule'', Offset = lit 0\<rparr>),
     (''cal'', \<lparr>Factor = lit 4.184, Dimension = ''energy'', Name = ''Calorie'', Offset = lit 0\<rparr>),
     (''kcal'', \<lparr>Factor = lit 4184, Dimension = ''energy'', Name = ''Kilocalorie'', Offset = lit 0\<rparr>),
     (''W'', \<lparr>Factor = lit 1, Dimension = ''power'', Name = ''Watt'', Offset = lit 0\<rparr>),
     (''HP'', \<lparr>Factor = lit 735.49875, Dimension = ''power'', Name = ''Horsepower'', Offset = lit 0\<rparr>),
     (''N'', \<lparr>Factor = lit 1, Dimension = ''force'', Name = ''Newton'', Offset = lit 0\<rparr>),
     (''lbf'', \<lparr>Factor = lit 4.4482216153, Dimension = ''force'', Name = ''Pound-force'', Offset = lit 0\<rparr>),
     (''Pa'', \<lparr>Factor = lit 1, Dimension = ''pressure'', Name = ''Pascal'', Offset = lit 0\<rparr>),
     (''atm'', \<lparr>Factor = lit 101325, Dimension = ''pressure'', Name = ''Atmosphere'', Offset = lit 0\<rparr>),
     (''bar'', \<lparr>Factor = lit 100000, Dimension = ''pressure'', Name = ''Bar'', Offset = lit 0\<rparr>),
     (''B'', \<lparr>Factor = lit 1, Dimension = ''data_storage'', Name = ''Byte'', Offset = lit 0\<rparr>),
     (''bit'', \<lparr>Factor = lit 0.125, Dimension = ''data_storage'', Name = ''Bit'', Offset = lit 0\<rparr>),
     (''KB'', \<lparr>Factor = lit 1024, Dimension = ''data_storage'', Name = ''Kilobyte'', Offset = lit 0\<rparr>),
     (''MB'', \<lparr>Factor = lit 1048576, Dimension = ''data_storage'', Name = ''Megabyte'', Offset = lit 0\<rparr>),
     (''GB'', \<lparr>Factor = lit 1073741824, Dimension = ''data_storage'', Name = ''Gigabyte'', Offset = lit 0\<rparr>),
     (''rad'', \<lparr>Factor = lit 1, Dimension = ''angle'', Name = ''Radian'', Offset = lit 0\<rparr>),
     (''deg'', \<lparr>Factor = lit (math_Pi / 180), Dimension = ''angle'', Name = ''Degree'', Offset = lit 0\<rparr>),
     (''arcmin'', \<lparr>Factor = lit (math_Pi / 10800), Dimension = ''angle'', Name = ''Minute'', Offset = lit 0\<rparr>),
     (''arcsec'', \<lparr>Factor = lit (math_Pi / 648000), Dimension = ''angle'', Name = ''Second'', Offset = lit 0\<rparr>)]"

definition NewUnitConverter :: UnitConverter where
  "NewUnitConverter = \<lparr>units = map_of unit_table\<rparr>"

section \<open>Conversion\<close>

text \<open>The three errors of \<^verbatim>\<open>Convert\<close>, with the values their messages are built from.\<close>

datatype convert_error =
    InvalidSourceUnit string
  | InvalidTargetUnit string
  | DimensionMismatch string string string string

definition error_message :: "convert_error \<Rightarrow> string" where
  "error_message e =
     (case e of
        InvalidSourceUnit f \<Rightarrow> ''invalid source unit: '' @ f
      | InvalidTargetUnit t \<Rightarrow> ''invalid target unit: '' @ t
      | DimensionMismatch f df t dt \<Rightarrow>
          ''cannot convert between different dimensions: '' @ f @ '' ('' @ df @ '') and ''
            @ t @ '' ('' @ dt @ '')'')"

text \<open>The last statements of \<^verbatim>\<open>Convert\<close>: scale by \<open>10\<^sup>1\<^sup>2\<close>, round, scale back.\<close>

definition round12 :: "float64 \<Rightarrow> float64" where
  "round12 r = (let factor = math_Pow_10 12 in fdiv (math_Round (fmul r factor)) factor)"

text \<open>
  \<^verbatim>\<open>Convert\<close> returns a pair as in Go: the number and the error, which is \<open>None\<close> for
  \<^verbatim>\<open>nil\<close>.  The arithmetic is rounded after every operation (no fused multiply-add).
\<close>

definition Convert :: "UnitConverter \<Rightarrow> float64 \<Rightarrow> string \<Rightarrow> string \<Rightarrow> float64 \<times> convert_error option" where
  "Convert uc v from to =
     (case units uc from of
        None \<Rightarrow> (Fin 0, Some (InvalidSourceUnit from))
      | Some unitFrom \<Rightarrow>
         (case units uc to of
            None \<Rightarrow> (Fin 0, Some (InvalidTargetUnit to))
          | Some unitTo \<Rightarrow>
             if Dimension unitFrom \<noteq> Dimension unitTo
             then (Fin 0, Some (DimensionMismatch from (Dimension unitFrom) to (Dimension unitTo)))
             else let result =
                        (if Dimension unitFrom = ''temperature''
                         then let baseValue = fadd (fmul v (Factor unitFrom)) (Offset unitFrom)
                              in fdiv (fsub baseValue (Offset unitTo)) (Factor unitTo)
                         else fdiv (fmul v (Factor unitFrom)) (Factor unitTo))
                  in (round12 result, None)))"

section \<open>Formatting\<close>

text \<open>Decimal digits of a natural number, most significant first.\<close>

definition digit_char :: "nat \<Rightarrow> char" where
  "digit_char d = ''0123456789'' ! d"

definition is_digit :: "char \<Rightarrow> bool" where
  "is_digit c = (c \<in> set ''0123456789'')"

fun dec_digits :: "nat \<Rightarrow> string" where
  "dec_digits n = (if n < 10 then [digit_char n] else dec_digits (n div 10) @ [digit_char (n mod 10)])"

declare dec_digits.simps [simp del]

definition pad_zeros :: "nat \<Rightarrow> string \<Rightarrow> string" where
  "pad_zeros w s = replicate (w - length s) (CHR ''0'') @ s"

text \<open>
  The digits of the verb \<^verbatim>\<open>%.<prec>f\<close> for a magnitude \<open>a \<ge> 0\<close>: the exact value is rounded
  to \<open>prec\<close> fractional digits, a tie going to the even digit; there is no decimal point
  when \<open>prec = 0\<close>.
\<close>

definition fixed_digits :: "nat \<Rightarrow> rat \<Rightarrow> string" where
  "fixed_digits prec a =
     (let n = nat (round_even (a * 10 ^ prec));
          ip = n div 10 ^ prec;
          fp = n mod 10 ^ prec
      in dec_digits ip @ (if prec = 0 then [] else ''.'' @ pad_zeros prec (dec_digits fp)))"

text \<open>
  The digits of the verb \<^verbatim>\<open>%.<prec>e\<close> for a magnitude \<open>a \<ge> 0\<close>: one digit, the point,
  \<open>prec\<close> digits, then the decimal exponent with its sign and at least two digits.
\<close>

definition sci_digits :: "nat \<Rightarrow> rat \<Rightarrow> string" where
  "sci_digits prec a =
     (let (n, e) =
            (if a = 0 then (0, 0)
             else let e0 = flog 10 a;
                      n0 = nat (round_even (a / 10 powi (e0 - int prec)))
                  in if 10 ^ (prec + 1) \<le> n0 then (n0 div 10, e0 + 1) else (n0, e0));
          ds = pad_zeros (prec + 1) (dec_digits n)
      in take 1 ds @ (if prec = 0 then [] else ''.'' @ drop 1 ds)
           @ ''e'' @ (if e < 0 then ''-'' else ''+'') @ pad_zeros 2 (dec_digits (nat \<bar>e\<bar>)))"

text \<open>
  How package fmt prints a float64 under a verb with the given digits: the sign bit
  gives a leading minus (also for the negative zero and for a negative value that
  rounds to zero); the infinities and NaN are printed by name.
\<close>

definition fmt_float :: "(rat \<Rightarrow> string) \<Rightarrow> float64 \<Rightarrow> string" where
  "fmt_float digits v =
     (case v of
        NaN \<Rightarrow> ''NaN''
      | PosInf \<Rightarrow> ''+Inf''
      | NegInf \<Rightarrow> ''-Inf''
      | NegZero \<Rightarrow> ''-'' @ digits 0
      | Fin x \<Rightarrow> (if x < 0 then ''-'' else []) @ digits \<bar>x\<bar>)"

definition sprintf_f :: "nat \<Rightarrow> float64 \<Rightarrow> string" where
  "sprintf_f prec v = fmt_float (fixed_digits prec) v"

definition sprintf_e :: "nat \<Rightarrow> float64 \<Rightarrow> string" where
  "sprintf_e prec v = fmt_float (sci_digits prec) v"

text \<open>
  \<^verbatim>\<open>FormatResult\<close>; the format string of the second branch is \<^verbatim>\<open>%.<decimalPlaces>f %s\<close>.
\<close>

definition FormatResult :: "UnitConverter \<Rightarrow> float64 \<Rightarrow> string \<Rightarrow> string" where
  "FormatResult uc result unit =
     (let absResult = math_Abs result
      in if f64_less absResult (lit 0.001) \<or> f64_less (lit 1000000) absResult
         then sprintf_e 6 result @ '' '' @ unit
         else let decimalPlaces =
                    (if f64_le (lit 1000) absResult then 0
                     else if f64_le (lit 100) absResult then 1
                     else if f64_le (lit 10) absResult then 2
                     else if f64_le (lit 1) absResult then 3
                     else 4)
              in sprintf_f decimalPlaces result @ '' '' @ unit)"

section \<open>The conversion endpoint\<close>

text \<open>
  A request as \<^verbatim>\<open>convertHandler\<close> sees it: the method, whether \<^verbatim>\<open>ParseForm\<close> succeeds, and
  the form fields in the order of the body.  \<^verbatim>\<open>FormValue\<close> returns the first value of a
  field and the empty string for a field that is absent.  A response is its status and
  its body; an error body is the JSON encoding of a \<^verbatim>\<open>ConversionResult\<close> with
  \<^verbatim>\<open>Success = false\<close> and the given \<^verbatim>\<open>Error\<close>, a success body is plain text.
\<close>

record Request =
  Method :: string
  ParseFormOk :: bool
  Form :: "(string \<times> string) list"

definition FormValue :: "Request \<Rightarrow> string \<Rightarrow> string" where
  "FormValue r k = (case map_of (Form r) k of None \<Rightarrow> [] | Some v \<Rightarrow> v)"

datatype Body = JsonError string | Text string

record Response =
  Status :: nat
  Body :: Body

text \<open>
  \<^verbatim>\<open>strconv.ParseFloat\<close> belongs to Go's library; the handler is modelled over any
  function \<^verbatim>\<open>ParseFloat\<close> that returns the parsed number, or \<open>None\<close> for an error.  A
  handler that never calls \<^verbatim>\<open>WriteHeader\<close> answers with status 200.
\<close>

definition convertHandler ::
  "(string \<Rightarrow> float64 option) \<Rightarrow> UnitConverter \<Rightarrow> Request \<Rightarrow> Response" where
  "convertHandler ParseFloat uc r =
     (if Method r \<noteq> ''POST''
      then \<lparr>Status = 405, Body = JsonError ''Method not allowed. Please use POST.''\<rparr>
      else if \<not> ParseFormOk r
      then \<lparr>Status = 400, Body = JsonError ''Error parsing form data''\<rparr>
      else let valueStr = FormValue r ''value'';
               fromUnit = FormValue r ''from'';
               toUnit = FormValue r ''to''
           in if valueStr = [] \<or> fromUnit = [] \<or> toUnit = []
              then \<lparr>Status = 400, Body = JsonError ''All fields (value, from, to) are required''\<rparr>
              else (case ParseFloat valueStr of
                      None \<Rightarrow> \<lparr>Status = 400, Body = JsonError ''Invalid value: must be a number''\<rparr>
                    | Some v \<Rightarrow>
                       (case Convert uc v fromUnit toUnit of
                          (result, Some err) \<Rightarrow> \<lparr>Status = 400, Body = JsonError (error_message err)\<rparr>
                        | (result, None) \<Rightarrow>
                            \<lparr>Status = 200, Body = Text (sprintf_f 3 result @ '' '' @ toUnit)\<rparr>)))"

text \<open>
  The plain decimal numerals among the inputs of \<^verbatim>\<open>strconv.ParseFloat\<close>: a string of
  digits is read as the float64 nearest to the number it writes.  (Signs, fractions,
  exponents, hexadecimal and the named values are not covered by this function.)
\<close>

definition digit_val :: "char \<Rightarrow> nat option" where
  "digit_val c = (let n = of_char c in if 48 \<le> n \<and> n \<le> 57 then Some (n - 48) else None)"

fun digits_val :: "nat \<Rightarrow> string \<Rightarrow> nat option" where
  "digits_val acc [] = Some acc"
| "digits_val acc (c # cs) =
     (case digit_val c of None \<Rightarrow> None | Some d \<Rightarrow> digits_val (10 * acc + d) cs)"

definition parse_digits :: "string \<Rightarrow> float64 option" where
  "parse_digits s =
     (if s = [] then None
      else case digits_val 0 s of
             None \<Rightarrow> None
           | Some n \<Rightarrow> (case f64_round (of_nat n) of Fin x \<Rightarrow> Some (Fin x) | _ \<Rightarrow> None))"

section \<open>Approximation\<close>

text \<open>
  \<^verbatim>\<open>near a x d\<close>: the float64 \<open>a\<close> is finite and its value lies within \<open>d\<close> of the
  rational \<open>x\<close>.  The unit roundoff of float64 is \<open>2\<^sup>-\<^sup>5\<^sup>3\<close>; half the distance between
  neighbouring subnormal numbers is \<open>2\<^sup>-\<^sup>1\<^sup>0\<^sup>7\<^sup>5\<close>.
\<close>

definition near :: "float64 \<Rightarrow> rat \<Rightarrow> rat \<Rightarrow> bool" where
  "near a x d \<longleftrightarrow> \<not> is_nan a \<and> \<not> is_inf a \<and> \<bar>val a - x\<bar> \<le> d"

text \<open>\<^verbatim>\<open>in_range a lo hi\<close>: the float64 \<open>a\<close> is finite, not the negative zero, and lies in \<open>[lo, hi]\<close>.\<close>

definition in_range :: "float64 \<Rightarrow> rat \<Rightarrow> rat \<Rightarrow> bool" where
  "in_range a lo hi \<longleftrightarrow> (\<exists>x. a = Fin x \<and> lo \<le> x \<and> x \<le> hi)"

definition uro :: rat where
  "uro = 2 powi (- 53)"

definition eta :: rat where
  "eta = 2 powi (- 1075)"

section \<open>Properties of the float64 model\<close>

lemma ilog_nonneg: "0 \<le> ilog b n"
  by (induction b n rule: ilog.induct) (subst ilog.simps, simp)

lemma ilog_bounds:
  assumes "2 \<le> b" "1 \<le> n"
  shows "b ^ nat (ilog b n) \<le> n \<and> n < b ^ nat (ilog b n + 1)"
  using assms
proof (induction b n rule: ilog.induct)
  case (1 b n)
  show ?case
  proof (cases "n < b")
    case True
    then have "ilog b n = 0" by (subst ilog.simps) simp
    with True 1 show ?thesis by simp
  next
    case False
    then have nb: "b \<le> n" by simp
    have e: "ilog b n = 1 + ilog b (n div b)"
      using 1(2) False by (subst ilog.simps) simp
    have q1: "1 \<le> n div b"
      proof - have "0 < n div b" using nb 1(2) by (simp add: pos_imp_zdiv_pos_iff) then show ?thesis by linarith qed
    have ih: "b ^ nat (ilog b (n div b)) \<le> n div b \<and> n div b < b ^ nat (ilog b (n div b) + 1)"
      using 1(1) 1(2) False q1 by simp
    let ?k = "nat (ilog b (n div b))"
    have k: "nat (ilog b n) = Suc ?k" "nat (ilog b (n div b) + 1) = Suc ?k" "nat (ilog b n + 1) = Suc (Suc ?k)"
      using e ilog_nonneg[of b "n div b"] by auto
    have bpos: "0 < b" using 1(2) by simp
    have dm: "n = b * (n div b) + n mod b" by simp
    have m0: "0 \<le> n mod b" and m1: "n mod b < b" using bpos by simp_all
    have "b * b ^ ?k \<le> b * (n div b)" using ih bpos by simp
    also have "\<dots> \<le> n" using dm m0 by linarith
    finally have lo: "b ^ Suc ?k \<le> n" by simp
    have "n div b + 1 \<le> b ^ Suc ?k" using ih k by simp
    then have "b * (n div b + 1) \<le> b * b ^ Suc ?k" using bpos by simp
    moreover have "n < b * (n div b + 1)"
    proof -
      have "b * (n div b + 1) = b * (n div b) + b" by (simp add: algebra_simps)
      then show ?thesis using dm m1 by linarith
    qed
    ultimately have hi: "n < b ^ Suc (Suc ?k)" by simp
    show ?thesis using lo hi k by simp
  qed
qed

lemma flog_bounds:
  assumes b: "2 \<le> b" and x: "0 < x"
  shows "of_int b powi (flog b x) \<le> x \<and> x < of_int b powi (flog b x + 1)"
proof -
  obtain p q where pq: "quotient_of x = (p, q)" by (cases "quotient_of x")
  have q: "0 < q" using pq by (rule quotient_of_denom_pos)
  have xe: "x = of_int p / of_int q" using pq by (rule quotient_of_div)
  have p: "0 < p" using x q xe by (simp add: zero_less_divide_iff)
  let ?B = "of_int b :: rat"
  have B: "1 < ?B" "0 < ?B" using b by simp_all
  define a c where "a = ilog b p" and "c = ilog b q"
  have a0: "0 \<le> a" and c0: "0 \<le> c" by (simp_all add: a_def c_def ilog_nonneg)
  have pa: "b ^ nat a \<le> p" "p < b ^ nat (a + 1)"
    using ilog_bounds[OF b, of p] p by (simp_all add: a_def)
  have qc: "b ^ nat c \<le> q" "q < b ^ nat (c + 1)"
    using ilog_bounds[OF b, of q] q by (simp_all add: c_def)
  have pa': "?B powi a \<le> of_int p" "of_int p < ?B powi (a + 1)"
  proof -
    have "(of_int (b ^ nat a) :: rat) \<le> of_int p" using pa(1) by (simp only: of_int_le_iff)
    then show "?B powi a \<le> of_int p" using a0 by (simp add: power_int_def)
    have "(of_int p :: rat) < of_int (b ^ nat (a + 1))" using pa(2) by (simp only: of_int_less_iff)
    then show "of_int p < ?B powi (a + 1)" using a0 by (simp add: power_int_def)
  qed
  have qc': "?B powi c \<le> of_int q" "of_int q < ?B powi (c + 1)"
  proof -
    have "(of_int (b ^ nat c) :: rat) \<le> of_int q" using qc(1) by (simp only: of_int_le_iff)
    then show "?B powi c \<le> of_int q" using c0 by (simp add: power_int_def)
    have "(of_int q :: rat) < of_int (b ^ nat (c + 1))" using qc(2) by (simp only: of_int_less_iff)
    then show "of_int q < ?B powi (c + 1)" using c0 by (simp add: power_int_def)
  qed
  have Q: "0 < (of_int q :: rat)" using q by simp
  have hi: "x < ?B powi (a - c + 1)"
  proof -
    have "of_int p < ?B powi (a + 1)" by (rule pa')
    also have "\<dots> = ?B powi (a - c + 1) * ?B powi c"
      using B by (simp add: power_int_add[symmetric])
    also have "\<dots> \<le> ?B powi (a - c + 1) * of_int q"
      using qc'(1) B by (intro mult_left_mono) simp_all
    finally show ?thesis using Q by (simp add: xe pos_divide_less_eq)
  qed
  have lo: "?B powi (a - c - 1) < x"
  proof -
    have "?B powi (a - c - 1) * of_int q < ?B powi (a - c - 1) * ?B powi (c + 1)"
      using qc'(2) B by (intro mult_strict_left_mono) simp_all
    also have "\<dots> = ?B powi a" using B by (simp add: power_int_add[symmetric])
    also have "\<dots> \<le> of_int p" by (rule pa')
    finally show ?thesis using Q by (simp add: xe pos_less_divide_eq)
  qed
  have fl: "flog b x = (if ?B powi (a - c) \<le> x then a - c else a - c - 1)"
    by (simp add: flog_def pq a_def c_def Let_def)
  show ?thesis
  proof (cases "?B powi (a - c) \<le> x")
    case True
    then show ?thesis using fl hi by simp
  next
    case False
    then have "flog b x = a - c - 1" using fl by simp
    then show ?thesis using False lo by simp
  qed
qed

lemma powi_less_cancel:
  fixes a :: rat
  assumes "1 < a" "a powi m < a powi n"
  shows "m < n"
proof (rule ccontr)
  assume "\<not> m < n"
  then have "n \<le> m" by simp
  then have "a powi n \<le> a powi m" using assms(1) by (intro power_int_increasing) simp_all
  with assms(2) show False by simp
qed

lemma flog_unique:
  assumes b: "2 \<le> b" and lo: "of_int b powi k \<le> x" and hi: "x < of_int b powi (k + 1)"
  shows "flog b x = k"
proof -
  let ?B = "of_int b :: rat"
  have B: "1 < ?B" using b by simp
  have x: "0 < x" using lo B by (meson less_le_trans zero_less_power_int zero_less_one less_trans)
  note fb = flog_bounds[OF b x]
  have "?B powi (flog b x) < ?B powi (k + 1)" using fb hi by linarith
  then have 1: "flog b x < k + 1" using B by (rule powi_less_cancel[rotated])
  have "?B powi k < ?B powi (flog b x + 1)" using fb lo by linarith
  then have 2: "k < flog b x + 1" using B by (rule powi_less_cancel[rotated])
  show ?thesis using 1 2 by simp
qed

lemma round_even_err: "\<bar>of_int (round_even y) - y\<bar> \<le> 1 / 2"
proof -
  have "of_int \<lfloor>y\<rfloor> \<le> y" "y < of_int \<lfloor>y\<rfloor> + 1" by linarith+
  then show ?thesis by (auto simp: round_even_def Let_def)
qed

lemma round_even_unique:
  assumes "\<bar>of_int m - y\<bar> < 1 / 2"
  shows "round_even y = m"
proof -
  have f: "of_int \<lfloor>y\<rfloor> \<le> y" "y < of_int \<lfloor>y\<rfloor> + 1" by linarith+
  show ?thesis
  proof (cases "y - of_int \<lfloor>y\<rfloor> < 1 / 2")
    case True
    have "\<lfloor>y\<rfloor> = m"
    proof (rule floor_unique)
      show "of_int m \<le> y" "y < of_int m + 1"
      proof -
        have "\<bar>(of_int m :: rat) - of_int \<lfloor>y\<rfloor>\<bar> < 1" using assms True f by linarith
        then have "\<bar>m - \<lfloor>y\<rfloor>\<bar> < 1" by (metis of_int_abs of_int_diff of_int_less_1_iff)
        then have "m = \<lfloor>y\<rfloor>" by linarith
        then show "of_int m \<le> y" "y < of_int m + 1" using f by simp_all
      qed
    qed
    then show ?thesis using True by (simp add: round_even_def Let_def)
  next
    case False
    have ne: "y - of_int \<lfloor>y\<rfloor> \<noteq> 1 / 2"
    proof
      assume h: "y - of_int \<lfloor>y\<rfloor> = 1 / 2"
      have "\<bar>(of_int m :: rat) - of_int \<lfloor>y\<rfloor> - 1 / 2\<bar> < 1 / 2" using assms h by linarith
      then have "(0::rat) < of_int (m - \<lfloor>y\<rfloor>)" "(of_int (m - \<lfloor>y\<rfloor>) :: rat) < 1" by (simp_all, linarith+)
      then have "0 < m - \<lfloor>y\<rfloor>" "m - \<lfloor>y\<rfloor> < 1" by (simp_all only: of_int_0_less_iff of_int_less_1_iff)
      then show False by linarith
    qed
    with False have gt: "1 / 2 < y - of_int \<lfloor>y\<rfloor>" by linarith
    have "\<bar>(of_int m :: rat) - of_int (\<lfloor>y\<rfloor> + 1)\<bar> < 1" using assms gt f by (simp, linarith)
    then have "\<bar>m - (\<lfloor>y\<rfloor> + 1)\<bar> < 1" by (metis of_int_abs of_int_diff of_int_less_1_iff)
    then have "m = \<lfloor>y\<rfloor> + 1" by linarith
    then show ?thesis using gt False by (simp add: round_even_def Let_def)
  qed
qed

lemma round_even_half:
  assumes "y = of_int f + 1 / 2" "m = (if even f then f else f + 1)"
  shows "round_even y = m"
proof -
  have "\<lfloor>y\<rfloor> = f" using assms(1) by (intro floor_unique) simp_all
  then show ?thesis using assms by (simp add: round_even_def Let_def)
qed

lemma round_even_of_int [simp]: "round_even (of_int m) = m"
  by (rule round_even_unique) simp

lemma f64_round_0 [simp]: "f64_round 0 = Fin 0"
  by (simp add: f64_round_def)

lemma f64_round_cert:
  fixes x :: rat
  assumes x: "0 < x"
    and k: "2 powi k \<le> x" "x < 2 powi (k + 1)"
    and e: "e = max (- 1074) (k - 52)"
    and m: "\<bar>of_int m - x / 2 powi e\<bar> < 1 / 2" "0 < m"
    and y: "(of_int m :: rat) * 2 powi e < 2 powi 1024"
  shows "f64_round x = Fin (of_int m * 2 powi e)"
proof -
  have fl: "flog 2 x = k"
    using k x by (intro flog_unique) simp_all
  have re: "round_even (x / 2 powi e) = m"
    using m(1) x by (intro round_even_unique) simp
  show ?thesis
    using x m(2) y by (simp add: f64_round_def fl e[symmetric] re Let_def)
qed

lemma f64_round_ovfI:
  fixes x :: rat
  assumes x: "0 < x"
    and k: "2 powi k \<le> x" "x < 2 powi (k + 1)"
    and e: "e = max (- 1074) (k - 52)"
    and m: "\<bar>of_int m - x / 2 powi e\<bar> < 1 / 2"
    and y: "2 powi 1024 \<le> (of_int m :: rat) * 2 powi e"
  shows "f64_round x = PosInf"
proof -
  have fl: "flog 2 x = k"
    using k x by (intro flog_unique) simp_all
  have re: "round_even (x / 2 powi e) = m"
    using m x by (intro round_even_unique) simp
  show ?thesis
    using x y by (simp add: f64_round_def fl e[symmetric] re Let_def)
qed

lemma f64_round_minus:
  assumes "x \<noteq> 0"
  shows "f64_round (- x) = fneg (f64_round x)"
proof -
  let ?e = "max (- 1074) (flog 2 \<bar>x\<bar> - 52)"
  let ?m = "round_even (\<bar>x\<bar> / 2 powi ?e)"
  have "?m \<noteq> 0 \<Longrightarrow> (of_int ?m :: rat) * 2 powi ?e \<noteq> 0" by simp
  then show ?thesis using assms
    by (cases "x < 0") (auto simp add: f64_round_def Let_def)
qed

lemma powi_le_cancel:
  fixes a :: rat
  assumes "1 < a" "a powi m \<le> a powi n"
  shows "m \<le> n"
proof (rule ccontr)
  assume "\<not> m \<le> n"
  then have "n < m" by simp
  then have "a powi n < a powi m" using assms(1) by (intro power_int_strict_increasing)
  with assms(2) show False by simp
qed

lemma pow2_add: "(2::rat) powi (a + b) = 2 powi a * 2 powi b"
  by (simp add: power_int_add)

lemma f64_round_normal_pos:
  fixes x :: rat
  assumes lo: "2 powi (- 1022) \<le> x" and hi: "x < 2 powi 1023"
  shows "\<exists>y. f64_round x = Fin y \<and> \<bar>y - x\<bar> \<le> x * 2 powi (- 53) \<and> 0 < y"
proof -
  have x: "0 < x" using lo by (meson less_le_trans zero_less_power_int zero_less_numeral)
  define k where "k = flog 2 x"
  have kb: "2 powi k \<le> x" "x < 2 powi (k + 1)"
    using flog_bounds[of 2 x] x by (simp_all add: k_def)
  have "(2::rat) powi (- 1022) < 2 powi (k + 1)" using lo kb by linarith
  then have k1: "- 1022 \<le> k" using powi_less_cancel[of 2 "- 1022" "k + 1"] by simp
  have "(2::rat) powi k < 2 powi 1023" using hi kb by linarith
  then have k2: "k < 1023" using powi_less_cancel[of 2 k 1023] by simp
  define e where "e = k - 52"
  have e: "max (- 1074) (flog 2 \<bar>x\<bar> - 52) = e" using k1 x by (simp add: e_def k_def)
  define m where "m = round_even (x / 2 powi e)"
  have E: "0 < (2::rat) powi e" by simp
  have me: "\<bar>of_int m - x / 2 powi e\<bar> \<le> 1 / 2" unfolding m_def by (rule round_even_err)
  have s1: "(2::rat) powi k = 2 powi 52 * 2 powi e"
    using pow2_add[of 52 e] by (simp add: e_def)
  have s2: "(2::rat) powi (k + 1) = 2 powi 53 * 2 powi e"
    using pow2_add[of 53 e] by (simp add: e_def add.commute)
  have q1: "2 powi 52 \<le> x / 2 powi e" using kb(1) E by (simp add: s1 pos_le_divide_eq)
  have q2: "x / 2 powi e < 2 powi 53" using kb(2) E by (simp add: s2 pos_divide_less_eq)
  have "(2 powi 52 :: rat) - 1 / 2 \<le> of_int m" using me q1 by linarith
  then have "(of_int (2 ^ 52 - 1) :: rat) < of_int m" by simp
  then have m1: "2 ^ 52 \<le> m" by (simp only: of_int_less_iff; simp?)
  have "(of_int m :: rat) < 2 powi 53 + 1 / 2" using me q2 by linarith
  then have "(of_int m :: rat) < of_int (2 ^ 53 + 1)" by simp
  then have m2: "m \<le> 2 ^ 53" by (simp only: of_int_less_iff; simp?)
  define y where "y = (of_int m :: rat) * 2 powi e"
  have ypos: "0 < y" using m1 by (simp add: y_def zero_less_mult_iff)
  have "y \<le> 2 powi 53 * 2 powi e"
    unfolding y_def using m2 by (intro mult_right_mono) (simp_all add: of_int_le_iff[of m "2 ^ 53", where ?'a = rat, simplified])
  also have "\<dots> = 2 powi (k + 1)" by (simp add: s2)
  also have "\<dots> \<le> 2 powi 1023" using k2 by (intro power_int_increasing) simp_all
  also have "\<dots> < 2 powi 1024" by simp
  finally have ylt: "y < 2 powi 1024" .
  have "y - x = (of_int m - x / 2 powi e) * 2 powi e"
    by (simp add: y_def field_simps)
  then have "\<bar>y - x\<bar> = \<bar>of_int m - x / 2 powi e\<bar> * 2 powi e"
    by (simp add: abs_mult)
  also have "\<dots> \<le> 1 / 2 * 2 powi e" using me by (intro mult_right_mono) simp_all
  also have "\<dots> = 2 powi k * 2 powi (- 53)"
    using pow2_add[of k "- 52"] by (simp add: e_def)
  also have "\<dots> \<le> x * 2 powi (- 53)" using kb(1) by (intro mult_right_mono) simp_all
  finally have err: "\<bar>y - x\<bar> \<le> x * 2 powi (- 53)" .
  have m0: "m \<noteq> 0" using m1 by auto
  have "f64_round x = Fin y"
    using x ylt m0 unfolding f64_round_def e Let_def y_def m_def
    by (simp add: abs_of_pos)
  with err ypos show ?thesis by blast
qed

lemma lit_0 [simp]: "lit 0 = Fin 0"
  by (simp add: lit_def)

lemma f64_round_eqI:
  fixes x r :: rat
  assumes k: "2 powi k \<le> \<bar>x\<bar>" "\<bar>x\<bar> < 2 powi (k + 1)"
    and e: "e = max (- 1074) (k - 52)"
    and m: "\<bar>of_int m - \<bar>x\<bar> / 2 powi e\<bar> < 1 / 2" "0 < m"
    and y: "(of_int m :: rat) * 2 powi e < 2 powi 1024"
    and r: "r = (if x < 0 then - (of_int m * 2 powi e) else of_int m * 2 powi e)"
  shows "f64_round x = Fin r"
proof -
  have ax: "0 < \<bar>x\<bar>" using k(1) by (meson less_le_trans zero_less_power_int zero_less_numeral)
  then have x0: "x \<noteq> 0" by simp
  have c: "f64_round \<bar>x\<bar> = Fin (of_int m * 2 powi e)"
    using ax k e m y by (rule f64_round_cert)
  show ?thesis
  proof (cases "x < 0")
    case True
    then have "f64_round x = fneg (f64_round \<bar>x\<bar>)"
      using f64_round_minus[of "\<bar>x\<bar>"] by simp
    then show ?thesis using c True r m(2) by simp
  next
    case False
    then show ?thesis using c r by simp
  qed
qed

lemma fmul_Fin: "a \<noteq> 0 \<Longrightarrow> b \<noteq> 0 \<Longrightarrow> fmul (Fin a) (Fin b) = f64_round (a * b)"
  by (simp add: fmul_def)

lemma fdiv_Fin: "a \<noteq> 0 \<Longrightarrow> b \<noteq> 0 \<Longrightarrow> fdiv (Fin a) (Fin b) = f64_round (a / b)"
  by (simp add: fdiv_def)

lemma fadd_Fin: "a \<noteq> 0 \<or> b \<noteq> 0 \<Longrightarrow> fadd (Fin a) (Fin b) = f64_round (a + b)"
  by (auto simp add: fadd_def)

lemma fsub_Fin: "a \<noteq> 0 \<or> b \<noteq> 0 \<Longrightarrow> fsub (Fin a) (Fin b) = f64_round (a - b)"
  by (auto simp add: fsub_def fadd_def)

lemma round_even_numeral [simp]: "round_even (numeral n) = numeral n"
  using round_even_of_int[of "numeral n"] by simp

lemma round_even_zero [simp]: "round_even 0 = 0"
  using round_even_of_int[of 0] by simp

lemma dec_digits_small: "n < 10 \<Longrightarrow> dec_digits n = [digit_char n]"
  by (simp add: dec_digits.simps)

lemma dec_digits_big: "10 \<le> n \<Longrightarrow> dec_digits n = dec_digits (n div 10) @ [digit_char (n mod 10)]"
  by (subst dec_digits.simps) simp

lemma replicate_numeral: "replicate (numeral n) x = x # replicate (pred_numeral n) x"
  by (simp add: numeral_eq_Suc)

lemmas dec_eval = dec_digits_small dec_digits_big digit_char_def pad_zeros_def replicate_numeral

lemma math_Round_eqI:
  assumes "of_int n \<le> \<bar>x\<bar> + 1 / 2" "\<bar>x\<bar> + 1 / 2 < of_int n + 1"
    and "r = (if n = 0 then signed_zero (x < 0) else Fin (if x < 0 then - of_int n else of_int n))"
  shows "math_Round (Fin x) = r"
proof -
  have "\<lfloor>\<bar>x\<bar> + 1 / 2\<rfloor> = n" using assms(1,2) by (rule floor_unique)
  then show ?thesis using assms(3) by (simp add: math_Round.simps Let_def)
qed

section \<open>Looking up units\<close>

lemma units_kg:
  "units NewUnitConverter ''kg'' =
     Some \<lparr>Factor = lit 1000, Dimension = ''mass'', Name = ''Kilogram'', Offset = lit 0\<rparr>"
  by (simp add: NewUnitConverter_def unit_table_def)

lemma units_g:
  "units NewUnitConverter ''g'' =
     Some \<lparr>Factor = lit 1, Dimension = ''mass'', Name = ''Gram'', Offset = lit 0\<rparr>"
  by (simp add: NewUnitConverter_def unit_table_def)

lemma units_m:
  "units NewUnitConverter ''m'' =
     Some \<lparr>Factor = lit 1, Dimension = ''length'', Name = ''Meter'', Offset = lit 0\<rparr>"
  by (simp add: NewUnitConverter_def unit_table_def)


lemma units_C:
  "units NewUnitConverter ''C'' =
     Some \<lparr>Factor = lit 1, Dimension = ''temperature'', Name = ''Celsius'', Offset = lit 273.15\<rparr>"
  by (simp add: NewUnitConverter_def unit_table_def)

lemma units_F:
  "units NewUnitConverter ''F'' =
     Some \<lparr>Factor = lit (5 / 9), Dimension = ''temperature'', Name = ''Fahrenheit'', Offset = lit 255.372\<rparr>"
  by (simp add: NewUnitConverter_def unit_table_def)

lemma units_K:
  "units NewUnitConverter ''K'' =
     Some \<lparr>Factor = lit 1, Dimension = ''temperature'', Name = ''Kelvin'', Offset = lit 0\<rparr>"
  by (simp add: NewUnitConverter_def unit_table_def)

lemma units_nm:
  "units NewUnitConverter ''nm'' =
     Some \<lparr>Factor = lit 0.000000001, Dimension = ''length'', Name = ''Nanometer'', Offset = lit 0\<rparr>"
  by (simp add: NewUnitConverter_def unit_table_def)

lemma units_mi:
  "units NewUnitConverter ''mi'' =
     Some \<lparr>Factor = lit 1609.344, Dimension = ''length'', Name = ''Mile'', Offset = lit 0\<rparr>"
  by (simp add: NewUnitConverter_def unit_table_def)

lemma units_unknown: "units NewUnitConverter ''unknown'' = None"
  by (simp add: NewUnitConverter_def unit_table_def)

lemma units_nothing: "units NewUnitConverter ''nothing'' = None"
  by (simp add: NewUnitConverter_def unit_table_def)

lemma units_min:
  "units NewUnitConverter ''min'' =
     Some \<lparr>Factor = lit 60, Dimension = ''time'', Name = ''Minute'', Offset = lit 0\<rparr>"
  by (simp add: NewUnitConverter_def unit_table_def)

lemma units_s:
  "units NewUnitConverter ''s'' =
     Some \<lparr>Factor = lit 1, Dimension = ''time'', Name = ''Second'', Offset = lit 0\<rparr>"
  by (simp add: NewUnitConverter_def unit_table_def)

lemma units_Hz:
  "units NewUnitConverter ''Hz'' =
     Some \<lparr>Factor = lit 1, Dimension = ''frequency'', Name = ''Hertz'', Offset = lit 0\<rparr>"
  by (simp add: NewUnitConverter_def unit_table_def)

lemma units_THz:
  "units NewUnitConverter ''THz'' =
     Some \<lparr>Factor = lit (10 ^ 12), Dimension = ''frequency'', Name = ''Terahertz'', Offset = lit 0\<rparr>"
  by (simp add: NewUnitConverter_def unit_table_def)

section \<open>Evaluations at concrete inputs\<close>



lemma Convert_0_C_K:
  "Convert NewUnitConverter (Fin 0) ''C'' ''K'' = (Fin (2402652809016115 / 8796093022208), None)"
proof -
  have s1: "lit 1 = Fin 1"
    unfolding lit_def by (rule f64_round_eqI[where k=0 and e="- 52" and m=4503599627370496]; simp)
  have s2: "lit (5463 / 20) = Fin (2402652809016115 / 8796093022208)"
    unfolding lit_def by (rule f64_round_eqI[where k=8 and e="- 44" and m=4805305618032230]; simp)
  have s3: "fmul (Fin 0) (Fin 1) = Fin 0"
    by (simp add: fmul_def fadd_def signed_zero_def)
  have s4: "fadd (Fin 0) (Fin (2402652809016115 / 8796093022208)) = Fin (2402652809016115 / 8796093022208)"
    by (simp add: fadd_Fin, rule f64_round_eqI[where k=8 and e="- 44" and m=4805305618032230]; simp)
  have s5: "fsub (Fin (2402652809016115 / 8796093022208)) (Fin 0) = Fin (2402652809016115 / 8796093022208)"
    by (simp add: fsub_Fin, rule f64_round_eqI[where k=8 and e="- 44" and m=4805305618032230]; simp)
  have s6: "fdiv (Fin (2402652809016115 / 8796093022208)) (Fin 1) = Fin (2402652809016115 / 8796093022208)"
    by (simp add: fdiv_Fin, rule f64_round_eqI[where k=8 and e="- 44" and m=4805305618032230]; simp)
  have s7: "math_Pow_10 12 = Fin 1000000000000"
    unfolding math_Pow_10_def by (simp, rule f64_round_eqI[where k=39 and e="- 13" and m=8192000000000000]; simp)
  have s8: "fmul (Fin (2402652809016115 / 8796093022208)) (Fin 1000000000000) = Fin (8740799999999999 / 32)"
    by (simp add: fmul_Fin, rule f64_round_eqI[where k=47 and e="- 5" and m=8740799999999999]; simp)
  have s9: "math_Round (Fin (8740799999999999 / 32)) = Fin 273150000000000"
    by (rule math_Round_eqI[where n=273150000000000]; simp add: signed_zero_def)
  have s10: "fdiv (Fin 273150000000000) (Fin 1000000000000) = Fin (2402652809016115 / 8796093022208)"
    by (simp add: fdiv_Fin, rule f64_round_eqI[where k=8 and e="- 44" and m=4805305618032230]; simp)
  have s11: "round12 (Fin (2402652809016115 / 8796093022208)) = Fin (2402652809016115 / 8796093022208)"
    by (simp add: round12_def Let_def s1 s2 s3 s4 s5 s6 s7 s8 s9 s10)
  show ?thesis
    by (simp add: Convert_def Let_def units_C units_K s1 s2 s3 s4 s5 s6 s7 s8 s9 s10 s11)
qed

lemma Convert_32_F_C:
  "Convert NewUnitConverter (Fin 32) ''F'' ''C'' = (Fin (- (8198552913450137 / 36893488147419103232)), None)"
proof -
  have s1: "lit (5 / 9) = Fin (2501999792983609 / 4503599627370496)"
    unfolding lit_def by (rule f64_round_eqI[where k="- 1" and e="- 53" and m=5003999585967218]; simp)
  have s2: "lit 1 = Fin 1"
    unfolding lit_def by (rule f64_round_eqI[where k=0 and e="- 52" and m=4503599627370496]; simp)
  have s3: "lit (63843 / 250) = Fin (4492551734534603 / 17592186044416)"
    unfolding lit_def by (rule f64_round_eqI[where k=7 and e="- 45" and m=8985103469069206]; simp)
  have s4: "lit (5463 / 20) = Fin (2402652809016115 / 8796093022208)"
    unfolding lit_def by (rule f64_round_eqI[where k=8 and e="- 44" and m=4805305618032230]; simp)
  have s5: "fmul (Fin 32) (Fin (2501999792983609 / 4503599627370496)) = Fin (2501999792983609 / 140737488355328)"
    by (simp add: fmul_Fin, rule f64_round_eqI[where k=4 and e="- 48" and m=5003999585967218]; simp)
  have s6: "fadd (Fin (2501999792983609 / 140737488355328)) (Fin (4492551734534603 / 17592186044416)) = Fin (2402650854328777 / 8796093022208)"
    by (simp add: fadd_Fin, rule f64_round_eqI[where k=8 and e="- 44" and m=4805301708657554]; simp)
  have s7: "fsub (Fin (2402650854328777 / 8796093022208)) (Fin (2402652809016115 / 8796093022208)) = Fin (- (977343669 / 4398046511104))"
    by (simp add: fsub_Fin, rule f64_round_eqI[where k="- 13" and e="- 65" and m=8198552920522752]; simp)
  have s8: "fdiv (Fin (- (977343669 / 4398046511104))) (Fin 1) = Fin (- (977343669 / 4398046511104))"
    by (simp add: fdiv_Fin, rule f64_round_eqI[where k="- 13" and e="- 65" and m=8198552920522752]; simp)
  have s9: "math_Pow_10 12 = Fin 1000000000000"
    unfolding math_Pow_10_def by (simp, rule f64_round_eqI[where k=39 and e="- 13" and m=8192000000000000]; simp)
  have s10: "fmul (Fin (- (977343669 / 4398046511104))) (Fin 1000000000000) = Fin (- (3728270221710205 / 16777216))"
    by (simp add: fmul_Fin, rule f64_round_eqI[where k=27 and e="- 25" and m=7456540443420410]; simp)
  have s11: "math_Round (Fin (- (3728270221710205 / 16777216))) = Fin (- 222222222)"
    by (rule math_Round_eqI[where n=222222222]; simp add: signed_zero_def)
  have s12: "fdiv (Fin (- 222222222)) (Fin 1000000000000) = Fin (- (8198552913450137 / 36893488147419103232))"
    by (simp add: fdiv_Fin, rule f64_round_eqI[where k="- 13" and e="- 65" and m=8198552913450137]; simp)
  have s13: "round12 (Fin (- (977343669 / 4398046511104))) = Fin (- (8198552913450137 / 36893488147419103232))"
    by (simp add: round12_def Let_def s1 s2 s3 s4 s5 s6 s7 s8 s9 s10 s11 s12)
  show ?thesis
    by (simp add: Convert_def Let_def units_F units_C s1 s2 s3 s4 s5 s6 s7 s8 s9 s10 s11 s12 s13)
qed

lemma Convert_100_C_F:
  "Convert NewUnitConverter (Fin 100) ''C'' ''F'' = (Fin (1864775239145305 / 8796093022208), None)"
proof -
  have s1: "lit 1 = Fin 1"
    unfolding lit_def by (rule f64_round_eqI[where k=0 and e="- 52" and m=4503599627370496]; simp)
  have s2: "lit (5 / 9) = Fin (2501999792983609 / 4503599627370496)"
    unfolding lit_def by (rule f64_round_eqI[where k="- 1" and e="- 53" and m=5003999585967218]; simp)
  have s3: "lit (5463 / 20) = Fin (2402652809016115 / 8796093022208)"
    unfolding lit_def by (rule f64_round_eqI[where k=8 and e="- 44" and m=4805305618032230]; simp)
  have s4: "lit (63843 / 250) = Fin (4492551734534603 / 17592186044416)"
    unfolding lit_def by (rule f64_round_eqI[where k=7 and e="- 45" and m=8985103469069206]; simp)
  have s5: "fmul (Fin 100) (Fin 1) = Fin 100"
    by (simp add: fmul_Fin, rule f64_round_eqI[where k=6 and e="- 46" and m=7036874417766400]; simp)
  have s6: "fadd (Fin 100) (Fin (2402652809016115 / 8796093022208)) = Fin (3282262111236915 / 8796093022208)"
    by (simp add: fadd_Fin, rule f64_round_eqI[where k=8 and e="- 44" and m=6564524222473830]; simp)
  have s7: "fsub (Fin (3282262111236915 / 8796093022208)) (Fin (4492551734534603 / 17592186044416)) = Fin (2071972487939227 / 17592186044416)"
    by (simp add: fsub_Fin, rule f64_round_eqI[where k=6 and e="- 46" and m=8287889951756908]; simp)
  have s8: "fdiv (Fin (2071972487939227 / 17592186044416)) (Fin (2501999792983609 / 4503599627370496)) = Fin (7459100956581217 / 35184372088832)"
    by (simp add: fdiv_Fin, rule f64_round_eqI[where k=7 and e="- 45" and m=7459100956581217]; simp)
  have s9: "math_Pow_10 12 = Fin 1000000000000"
    unfolding math_Pow_10_def by (simp, rule f64_round_eqI[where k=39 and e="- 13" and m=8192000000000000]; simp)
  have s10: "fmul (Fin (7459100956581217 / 35184372088832)) (Fin 1000000000000) = Fin (3392006399999999 / 16)"
    by (simp add: fmul_Fin, rule f64_round_eqI[where k=47 and e="- 5" and m=6784012799999998]; simp)
  have s11: "math_Round (Fin (3392006399999999 / 16)) = Fin 212000400000000"
    by (rule math_Round_eqI[where n=212000400000000]; simp add: signed_zero_def)
  have s12: "fdiv (Fin 212000400000000) (Fin 1000000000000) = Fin (1864775239145305 / 8796093022208)"
    by (simp add: fdiv_Fin, rule f64_round_eqI[where k=7 and e="- 45" and m=7459100956581220]; simp)
  have s13: "round12 (Fin (7459100956581217 / 35184372088832)) = Fin (1864775239145305 / 8796093022208)"
    by (simp add: round12_def Let_def s1 s2 s3 s4 s5 s6 s7 s8 s9 s10 s11 s12)
  show ?thesis
    by (simp add: Convert_def Let_def units_C units_F s1 s2 s3 s4 s5 s6 s7 s8 s9 s10 s11 s12 s13)
qed

lemma Convert_10_kg_g:
  "Convert NewUnitConverter (Fin 10) ''kg'' ''g'' = (Fin 10000, None)"
proof -
  have s1: "lit 1000 = Fin 1000"
    unfolding lit_def by (rule f64_round_eqI[where k=9 and e="- 43" and m=8796093022208000]; simp)
  have s2: "lit 1 = Fin 1"
    unfolding lit_def by (rule f64_round_eqI[where k=0 and e="- 52" and m=4503599627370496]; simp)
  have s3: "fmul (Fin 10) (Fin 1000) = Fin 10000"
    by (simp add: fmul_Fin, rule f64_round_eqI[where k=13 and e="- 39" and m=5497558138880000]; simp)
  have s4: "fdiv (Fin 10000) (Fin 1) = Fin 10000"
    by (simp add: fdiv_Fin, rule f64_round_eqI[where k=13 and e="- 39" and m=5497558138880000]; simp)
  have s5: "math_Pow_10 12 = Fin 1000000000000"
    unfolding math_Pow_10_def by (simp, rule f64_round_eqI[where k=39 and e="- 13" and m=8192000000000000]; simp)
  have s6: "fmul (Fin 10000) (Fin 1000000000000) = Fin 10000000000000000"
    by (simp add: fmul_Fin, rule f64_round_eqI[where k=53 and e=1 and m=5000000000000000]; simp)
  have s7: "math_Round (Fin 10000000000000000) = Fin 10000000000000000"
    by (rule math_Round_eqI[where n=10000000000000000]; simp add: signed_zero_def)
  have s8: "fdiv (Fin 10000000000000000) (Fin 1000000000000) = Fin 10000"
    by (simp add: fdiv_Fin, rule f64_round_eqI[where k=13 and e="- 39" and m=5497558138880000]; simp)
  have s9: "round12 (Fin 10000) = Fin 10000"
    by (simp add: round12_def Let_def s1 s2 s3 s4 s5 s6 s7 s8)
  show ?thesis
    by (simp add: Convert_def Let_def units_kg units_g s1 s2 s3 s4 s5 s6 s7 s8 s9)
qed

lemma Convert_1_nm_mi:
  "Convert NewUnitConverter (Fin 1) ''nm'' ''mi'' = (Fin (4951760157141521 / 4951760157141521099596496896), None)"
proof -
  have s1: "lit (1 / 1000000000) = Fin (4835703278458517 / 4835703278458516698824704)"
    unfolding lit_def by (rule f64_round_eqI[where k="- 30" and e="- 82" and m=4835703278458517]; simp)
  have s2: "lit (201168 / 125) = Fin (1769492441091539 / 1099511627776)"
    unfolding lit_def by (rule f64_round_eqI[where k=10 and e="- 42" and m=7077969764366156]; simp)
  have s3: "fmul (Fin 1) (Fin (4835703278458517 / 4835703278458516698824704)) = Fin (4835703278458517 / 4835703278458516698824704)"
    by (simp add: fmul_Fin, rule f64_round_eqI[where k="- 30" and e="- 82" and m=4835703278458517]; simp)
  have s4: "fdiv (Fin (4835703278458517 / 4835703278458516698824704)) (Fin (1769492441091539 / 1099511627776)) = Fin (6153762225032711 / 9903520314283042199192993792)"
    by (simp add: fdiv_Fin, rule f64_round_eqI[where k="- 41" and e="- 93" and m=6153762225032711]; simp)
  have s5: "math_Pow_10 12 = Fin 1000000000000"
    unfolding math_Pow_10_def by (simp, rule f64_round_eqI[where k=39 and e="- 13" and m=8192000000000000]; simp)
  have s6: "fmul (Fin (6153762225032711 / 9903520314283042199192993792)) (Fin 1000000000000) = Fin (5596814139637637 / 9007199254740992)"
    by (simp add: fmul_Fin, rule f64_round_eqI[where k="- 1" and e="- 53" and m=5596814139637637]; simp)
  have s7: "math_Round (Fin (5596814139637637 / 9007199254740992)) = Fin 1"
    by (rule math_Round_eqI[where n=1]; simp add: signed_zero_def)
  have s8: "fdiv (Fin 1) (Fin 1000000000000) = Fin (4951760157141521 / 4951760157141521099596496896)"
    by (simp add: fdiv_Fin, rule f64_round_eqI[where k="- 40" and e="- 92" and m=4951760157141521]; simp)
  have s9: "round12 (Fin (6153762225032711 / 9903520314283042199192993792)) = Fin (4951760157141521 / 4951760157141521099596496896)"
    by (simp add: round12_def Let_def s1 s2 s3 s4 s5 s6 s7 s8)
  show ?thesis
    by (simp add: Convert_def Let_def units_nm units_mi s1 s2 s3 s4 s5 s6 s7 s8 s9)
qed

lemma Convert_back_mi_nm:
  "Convert NewUnitConverter (Fin (4951760157141521 / 4951760157141521099596496896)) ''mi'' ''nm'' = (Fin (226495032459717 / 140737488355328), None)"
proof -
  have s1: "lit (201168 / 125) = Fin (1769492441091539 / 1099511627776)"
    unfolding lit_def by (rule f64_round_eqI[where k=10 and e="- 42" and m=7077969764366156]; simp)
  have s2: "lit (1 / 1000000000) = Fin (4835703278458517 / 4835703278458516698824704)"
    unfolding lit_def by (rule f64_round_eqI[where k="- 30" and e="- 82" and m=4835703278458517]; simp)
  have s3: "fmul (Fin (4951760157141521 / 4951760157141521099596496896)) (Fin (1769492441091539 / 1099511627776)) = Fin (7782310056967543 / 4835703278458516698824704)"
    by (simp add: fmul_Fin, rule f64_round_eqI[where k="- 30" and e="- 82" and m=7782310056967543]; simp)
  have s4: "fdiv (Fin (7782310056967543 / 4835703278458516698824704)) (Fin (4835703278458517 / 4835703278458516698824704)) = Fin (7247841038710943 / 4503599627370496)"
    by (simp add: fdiv_Fin, rule f64_round_eqI[where k=0 and e="- 52" and m=7247841038710943]; simp)
  have s5: "math_Pow_10 12 = Fin 1000000000000"
    unfolding math_Pow_10_def by (simp, rule f64_round_eqI[where k=39 and e="- 13" and m=8192000000000000]; simp)
  have s6: "fmul (Fin (7247841038710943 / 4503599627370496)) (Fin 1000000000000) = Fin 1609344000000"
    by (simp add: fmul_Fin, rule f64_round_eqI[where k=40 and e="- 12" and m=6591873024000000]; simp)
  have s7: "math_Round (Fin 1609344000000) = Fin 1609344000000"
    by (rule math_Round_eqI[where n=1609344000000]; simp add: signed_zero_def)
  have s8: "fdiv (Fin 1609344000000) (Fin 1000000000000) = Fin (226495032459717 / 140737488355328)"
    by (simp add: fdiv_Fin, rule f64_round_eqI[where k=0 and e="- 52" and m=7247841038710944]; simp)
  have s9: "round12 (Fin (7247841038710943 / 4503599627370496)) = Fin (226495032459717 / 140737488355328)"
    by (simp add: round12_def Let_def s1 s2 s3 s4 s5 s6 s7 s8)
  show ?thesis
    by (simp add: Convert_def Let_def units_mi units_nm s1 s2 s3 s4 s5 s6 s7 s8 s9)
qed

lemma Format_1500000_m:
  "FormatResult NewUnitConverter (Fin 1500000) ''m'' = ''1.500000e+06 m''"
proof -
  have s1: "lit (1 / 1000) = Fin (1152921504606847 / 1152921504606846976)"
    unfolding lit_def by (rule f64_round_eqI[where k="- 10" and e="- 62" and m=4611686018427388]; simp)
  have s2: "lit 1000000 = Fin 1000000"
    unfolding lit_def by (rule f64_round_eqI[where k=19 and e="- 33" and m=8589934592000000]; simp)
  have s3: "flog 10 1500000 = 6"
    by (rule flog_unique) simp_all
  have s4: "sprintf_e 6 (Fin 1500000) = ''1.500000e+06''"
    by (simp add: sprintf_e_def fmt_float_def sci_digits_def dec_eval Let_def s1 s2 s3)
  have s5: "FormatResult NewUnitConverter (Fin 1500000) ''m'' = ''1.500000e+06 m''"
    by (simp add: FormatResult_def Let_def f64_less_def f64_le_def s1 s2 s4)
  show ?thesis by (rule s5)
qed

lemma Format_42_5_kg:
  "FormatResult NewUnitConverter (Fin (85 / 2)) ''kg'' = ''42.50 kg''"
proof -
  have s1: "lit (1 / 1000) = Fin (1152921504606847 / 1152921504606846976)"
    unfolding lit_def by (rule f64_round_eqI[where k="- 10" and e="- 62" and m=4611686018427388]; simp)
  have s2: "lit 1000000 = Fin 1000000"
    unfolding lit_def by (rule f64_round_eqI[where k=19 and e="- 33" and m=8589934592000000]; simp)
  have s3: "lit 1000 = Fin 1000"
    unfolding lit_def by (rule f64_round_eqI[where k=9 and e="- 43" and m=8796093022208000]; simp)
  have s4: "lit 100 = Fin 100"
    unfolding lit_def by (rule f64_round_eqI[where k=6 and e="- 46" and m=7036874417766400]; simp)
  have s5: "lit 10 = Fin 10"
    unfolding lit_def by (rule f64_round_eqI[where k=3 and e="- 49" and m=5629499534213120]; simp)
  have s6: "sprintf_f 2 (Fin (85 / 2)) = ''42.50''"
    by (simp add: sprintf_f_def fmt_float_def fixed_digits_def dec_eval Let_def s1 s2 s3 s4 s5)
  have s7: "FormatResult NewUnitConverter (Fin (85 / 2)) ''kg'' = ''42.50 kg''"
    by (simp add: FormatResult_def Let_def f64_less_def f64_le_def s1 s2 s3 s4 s5 s6)
  show ?thesis by (rule s7)
qed

lemma Format_0_0005_s:
  "FormatResult NewUnitConverter (Fin (1152921504606847 / 2305843009213693952)) ''s'' = ''5.000000e-04 s''"
proof -
  have s1: "lit (1 / 1000) = Fin (1152921504606847 / 1152921504606846976)"
    unfolding lit_def by (rule f64_round_eqI[where k="- 10" and e="- 62" and m=4611686018427388]; simp)
  have s2: "lit 1000000 = Fin 1000000"
    unfolding lit_def by (rule f64_round_eqI[where k=19 and e="- 33" and m=8589934592000000]; simp)
  have s3: "flog 10 (1152921504606847 / 2305843009213693952) = - 4"
    by (rule flog_unique) simp_all
  have s4: "round_even (11258999068426240234375 / 2251799813685248) = 5000000"
    by (rule round_even_unique) simp
  have s5: "sprintf_e 6 (Fin (1152921504606847 / 2305843009213693952)) = ''5.000000e-04''"
    by (simp add: sprintf_e_def fmt_float_def sci_digits_def dec_eval Let_def s1 s2 s3 s4)
  have s6: "FormatResult NewUnitConverter (Fin (1152921504606847 / 2305843009213693952)) ''s'' = ''5.000000e-04 s''"
    by (simp add: FormatResult_def Let_def f64_less_def f64_le_def s1 s2 s5)
  show ?thesis by (rule s6)
qed

lemma Format_10000_g:
  "FormatResult NewUnitConverter (Fin 10000) ''g'' = ''10000 g''"
proof -
  have s1: "lit (1 / 1000) = Fin (1152921504606847 / 1152921504606846976)"
    unfolding lit_def by (rule f64_round_eqI[where k="- 10" and e="- 62" and m=4611686018427388]; simp)
  have s2: "lit 1000000 = Fin 1000000"
    unfolding lit_def by (rule f64_round_eqI[where k=19 and e="- 33" and m=8589934592000000]; simp)
  have s3: "lit 1000 = Fin 1000"
    unfolding lit_def by (rule f64_round_eqI[where k=9 and e="- 43" and m=8796093022208000]; simp)
  have s4: "sprintf_f 0 (Fin 10000) = ''10000''"
    by (simp add: sprintf_f_def fmt_float_def fixed_digits_def dec_eval Let_def s1 s2 s3)
  have s5: "FormatResult NewUnitConverter (Fin 10000) ''g'' = ''10000 g''"
    by (simp add: FormatResult_def Let_def f64_less_def f64_le_def s1 s2 s3 s4)
  show ?thesis by (rule s5)
qed

lemma sprintf_f_3_10000:
  "sprintf_f 3 (Fin 10000) = ''10000.000''"
proof -
  have s1: "sprintf_f 3 (Fin 10000) = ''10000.000''"
    by (simp add: sprintf_f_def fmt_float_def fixed_digits_def dec_eval Let_def )
  show ?thesis by (rule s1)
qed

lemma lit_273_15: "lit (5463 / 20) = Fin (2402652809016115 / 8796093022208)"
  unfolding lit_def by (rule f64_round_eqI[where k=8 and e="- 44" and m=4805305618032230]; simp)

lemma lit_0_0005: "lit (1 / 2000) = Fin (1152921504606847 / 2305843009213693952)"
  unfolding lit_def by (rule f64_round_eqI[where k="- 11" and e="- 63" and m=4611686018427388]; simp)

lemma lit_0_001: "lit (1 / 1000) = Fin (1152921504606847 / 1152921504606846976)"
  unfolding lit_def by (rule f64_round_eqI[where k="- 10" and e="- 62" and m=4611686018427388]; simp)

lemma lit_1: "lit 1 = Fin 1"
  unfolding lit_def by (rule f64_round_eqI[where k=0 and e="- 52" and m=4503599627370496]; simp)

lemma lit_10: "lit 10 = Fin 10"
  unfolding lit_def by (rule f64_round_eqI[where k=3 and e="- 49" and m=5629499534213120]; simp)

lemma lit_100: "lit 100 = Fin 100"
  unfolding lit_def by (rule f64_round_eqI[where k=6 and e="- 46" and m=7036874417766400]; simp)

lemma lit_1000: "lit 1000 = Fin 1000"
  unfolding lit_def by (rule f64_round_eqI[where k=9 and e="- 43" and m=8796093022208000]; simp)

lemma lit_1000000: "lit 1000000 = Fin 1000000"
  unfolding lit_def by (rule f64_round_eqI[where k=19 and e="- 33" and m=8589934592000000]; simp)

lemma math_Pow_10_12: "math_Pow_10 12 = Fin 1000000000000"
  unfolding math_Pow_10_def by (simp, rule f64_round_eqI[where k=39 and e="- 13" and m=8192000000000000]; simp)

lemma Convert_10_kg_kg:
  "Convert NewUnitConverter (Fin 10) ''kg'' ''kg'' = (Fin 10, None)"
proof -
  have s1: "lit 1000 = Fin 1000"
    unfolding lit_def by (rule f64_round_eqI[where k=9 and e="- 43" and m=8796093022208000]; simp)
  have s2: "fmul (Fin 10) (Fin 1000) = Fin 10000"
    by (simp add: fmul_Fin, rule f64_round_eqI[where k=13 and e="- 39" and m=5497558138880000]; simp)
  have s3: "fdiv (Fin 10000) (Fin 1000) = Fin 10"
    by (simp add: fdiv_Fin, rule f64_round_eqI[where k=3 and e="- 49" and m=5629499534213120]; simp)
  have s4: "math_Pow_10 12 = Fin 1000000000000"
    unfolding math_Pow_10_def by (simp, rule f64_round_eqI[where k=39 and e="- 13" and m=8192000000000000]; simp)
  have s5: "fmul (Fin 10) (Fin 1000000000000) = Fin 10000000000000"
    by (simp add: fmul_Fin, rule f64_round_eqI[where k=43 and e="- 9" and m=5120000000000000]; simp)
  have s6: "math_Round (Fin 10000000000000) = Fin 10000000000000"
    by (rule math_Round_eqI[where n=10000000000000]; simp add: signed_zero_def)
  have s7: "fdiv (Fin 10000000000000) (Fin 1000000000000) = Fin 10"
    by (simp add: fdiv_Fin, rule f64_round_eqI[where k=3 and e="- 49" and m=5629499534213120]; simp)
  have s8: "round12 (Fin 10) = Fin 10"
    by (simp add: round12_def Let_def s1 s2 s3 s4 s5 s6 s7)
  show ?thesis
    by (simp add: Convert_def Let_def units_kg units_kg s1 s2 s3 s4 s5 s6 s7 s8)
qed

lemma sprintf_f_3_10:
  "sprintf_f 3 (Fin 10) = ''10.000''"
proof -
  have s1: "sprintf_f 3 (Fin 10) = ''10.000''"
    by (simp add: sprintf_f_def fmt_float_def fixed_digits_def dec_eval Let_def )
  show ?thesis by (rule s1)
qed

lemma Format_10_kg:
  "FormatResult NewUnitConverter (Fin 10) ''kg'' = ''10.00 kg''"
proof -
  have s1: "lit (1 / 1000) = Fin (1152921504606847 / 1152921504606846976)"
    unfolding lit_def by (rule f64_round_eqI[where k="- 10" and e="- 62" and m=4611686018427388]; simp)
  have s2: "lit 1000000 = Fin 1000000"
    unfolding lit_def by (rule f64_round_eqI[where k=19 and e="- 33" and m=8589934592000000]; simp)
  have s3: "lit 1000 = Fin 1000"
    unfolding lit_def by (rule f64_round_eqI[where k=9 and e="- 43" and m=8796093022208000]; simp)
  have s4: "lit 100 = Fin 100"
    unfolding lit_def by (rule f64_round_eqI[where k=6 and e="- 46" and m=7036874417766400]; simp)
  have s5: "lit 10 = Fin 10"
    unfolding lit_def by (rule f64_round_eqI[where k=3 and e="- 49" and m=5629499534213120]; simp)
  have s6: "sprintf_f 2 (Fin 10) = ''10.00''"
    by (simp add: sprintf_f_def fmt_float_def fixed_digits_def dec_eval Let_def s1 s2 s3 s4 s5)
  have s7: "FormatResult NewUnitConverter (Fin 10) ''kg'' = ''10.00 kg''"
    by (simp add: FormatResult_def Let_def f64_less_def f64_le_def s1 s2 s3 s4 s5 s6)
  show ?thesis by (rule s7)
qed

lemma lit_F_C: "lit (- (111111111 / 500000000000)) = Fin (- (8198552913450137 / 36893488147419103232))"
  unfolding lit_def by (rule f64_round_eqI[where k="- 13" and e="- 65" and m=8198552913450137]; simp)

lemma lit_C_F: "lit (530001 / 2500) = Fin (1864775239145305 / 8796093022208)"
  unfolding lit_def by (rule f64_round_eqI[where k=7 and e="- 45" and m=7459100956581220]; simp)

lemma exact_offset_32_F_C:
  "round12 (fdiv (fsub (fadd (fmul (Fin 32) (lit (5 / 9))) (lit (45967 / 180))) (lit (5463 / 20))) (lit 1)) = Fin 0"
proof -
  have s1: "lit (5 / 9) = Fin (2501999792983609 / 4503599627370496)"
    unfolding lit_def by (rule f64_round_eqI[where k="- 1" and e="- 53" and m=5003999585967218]; simp)
  have s2: "lit (45967 / 180) = Fin (8985111287818559 / 35184372088832)"
    unfolding lit_def by (rule f64_round_eqI[where k=7 and e="- 45" and m=8985111287818559]; simp)
  have s3: "lit (5463 / 20) = Fin (2402652809016115 / 8796093022208)"
    unfolding lit_def by (rule f64_round_eqI[where k=8 and e="- 44" and m=4805305618032230]; simp)
  have s4: "lit 1 = Fin 1"
    unfolding lit_def by (rule f64_round_eqI[where k=0 and e="- 52" and m=4503599627370496]; simp)
  have s5: "fmul (Fin 32) (Fin (2501999792983609 / 4503599627370496)) = Fin (2501999792983609 / 140737488355328)"
    by (simp add: fmul_Fin, rule f64_round_eqI[where k=4 and e="- 48" and m=5003999585967218]; simp)
  have s6: "fadd (Fin (2501999792983609 / 140737488355328)) (Fin (8985111287818559 / 35184372088832)) = Fin (4805305618032231 / 17592186044416)"
    by (simp add: fadd_Fin, rule f64_round_eqI[where k=8 and e="- 44" and m=4805305618032231]; simp)
  have s7: "fsub (Fin (4805305618032231 / 17592186044416)) (Fin (2402652809016115 / 8796093022208)) = Fin (1 / 17592186044416)"
    by (simp add: fsub_Fin, rule f64_round_eqI[where k="- 44" and e="- 96" and m=4503599627370496]; simp)
  have s8: "fdiv (Fin (1 / 17592186044416)) (Fin 1) = Fin (1 / 17592186044416)"
    by (simp add: fdiv_Fin, rule f64_round_eqI[where k="- 44" and e="- 96" and m=4503599627370496]; simp)
  have s9: "math_Pow_10 12 = Fin 1000000000000"
    unfolding math_Pow_10_def by (simp, rule f64_round_eqI[where k=39 and e="- 13" and m=8192000000000000]; simp)
  have s10: "fmul (Fin (1 / 17592186044416)) (Fin 1000000000000) = Fin (244140625 / 4294967296)"
    by (simp add: fmul_Fin, rule f64_round_eqI[where k="- 5" and e="- 57" and m=8192000000000000]; simp)
  have s11: "math_Round (Fin (244140625 / 4294967296)) = Fin 0"
    by (rule math_Round_eqI[where n=0]; simp add: signed_zero_def)
  have s12: "fdiv (Fin 0) (Fin 1000000000000) = Fin 0"
    by (simp add: fdiv_def fadd_def signed_zero_def)
  have s13: "round12 (Fin (1 / 17592186044416)) = Fin 0"
    by (simp add: round12_def Let_def s1 s2 s3 s4 s5 s6 s7 s8 s9 s10 s11 s12)
  show ?thesis
    by (simp add: s1 s2 s3 s4 s5 s6 s7 s8 s9 s10 s11 s12 s13)
qed

lemma exact_offset_100_C_F:
  "round12 (fdiv (fsub (fadd (fmul (Fin 100) (lit 1)) (lit (5463 / 20))) (lit (45967 / 180))) (lit (5 / 9))) = Fin 212"
proof -
  have s1: "lit 1 = Fin 1"
    unfolding lit_def by (rule f64_round_eqI[where k=0 and e="- 52" and m=4503599627370496]; simp)
  have s2: "lit (5463 / 20) = Fin (2402652809016115 / 8796093022208)"
    unfolding lit_def by (rule f64_round_eqI[where k=8 and e="- 44" and m=4805305618032230]; simp)
  have s3: "lit (45967 / 180) = Fin (8985111287818559 / 35184372088832)"
    unfolding lit_def by (rule f64_round_eqI[where k=7 and e="- 45" and m=8985111287818559]; simp)
  have s4: "lit (5 / 9) = Fin (2501999792983609 / 4503599627370496)"
    unfolding lit_def by (rule f64_round_eqI[where k="- 1" and e="- 53" and m=5003999585967218]; simp)
  have s5: "fmul (Fin 100) (Fin 1) = Fin 100"
    by (simp add: fmul_Fin, rule f64_round_eqI[where k=6 and e="- 46" and m=7036874417766400]; simp)
  have s6: "fadd (Fin 100) (Fin (2402652809016115 / 8796093022208)) = Fin (3282262111236915 / 8796093022208)"
    by (simp add: fadd_Fin, rule f64_round_eqI[where k=8 and e="- 44" and m=6564524222473830]; simp)
  have s7: "fsub (Fin (3282262111236915 / 8796093022208)) (Fin (8985111287818559 / 35184372088832)) = Fin (4143937157129101 / 35184372088832)"
    by (simp add: fsub_Fin, rule f64_round_eqI[where k=6 and e="- 46" and m=8287874314258202]; simp)
  have s8: "fdiv (Fin (4143937157129101 / 35184372088832)) (Fin (2501999792983609 / 4503599627370496)) = Fin (7459086882832381 / 35184372088832)"
    by (simp add: fdiv_Fin, rule f64_round_eqI[where k=7 and e="- 45" and m=7459086882832381]; simp)
  have s9: "math_Pow_10 12 = Fin 1000000000000"
    unfolding math_Pow_10_def by (simp, rule f64_round_eqI[where k=39 and e="- 13" and m=8192000000000000]; simp)
  have s10: "fmul (Fin (7459086882832381 / 35184372088832)) (Fin 1000000000000) = Fin (6783999999999997 / 32)"
    by (simp add: fmul_Fin, rule f64_round_eqI[where k=47 and e="- 5" and m=6783999999999997]; simp)
  have s11: "math_Round (Fin (6783999999999997 / 32)) = Fin 212000000000000"
    by (rule math_Round_eqI[where n=212000000000000]; simp add: signed_zero_def)
  have s12: "fdiv (Fin 212000000000000) (Fin 1000000000000) = Fin 212"
    by (simp add: fdiv_Fin, rule f64_round_eqI[where k=7 and e="- 45" and m=7459086882832384]; simp)
  have s13: "round12 (Fin (7459086882832381 / 35184372088832)) = Fin 212"
    by (simp add: round12_def Let_def s1 s2 s3 s4 s5 s6 s7 s8 s9 s10 s11 s12)
  show ?thesis
    by (simp add: s1 s2 s3 s4 s5 s6 s7 s8 s9 s10 s11 s12 s13)
qed

lemma lit_0_0002000000004: "lit (500000001 / 2500000000000) = Fin (115292150691269 / 576460752303423488)"
  unfolding lit_def by (rule f64_round_eqI[where k="- 13" and e="- 65" and m=7378697644241216]; simp)

lemma Convert_small_min_s:
  "Convert NewUnitConverter (Fin (115292150691269 / 576460752303423488)) ''min'' ''s'' = (Fin (1729382260369035 / 144115188075855872), None)"
proof -
  have s1: "lit 60 = Fin 60"
    unfolding lit_def by (rule f64_round_eqI[where k=5 and e="- 47" and m=8444249301319680]; simp)
  have s2: "lit 1 = Fin 1"
    unfolding lit_def by (rule f64_round_eqI[where k=0 and e="- 52" and m=4503599627370496]; simp)
  have s3: "fmul (Fin (115292150691269 / 576460752303423488)) (Fin 60) = Fin (1729382260369035 / 144115188075855872)"
    by (simp add: fmul_Fin, rule f64_round_eqI[where k="- 7" and e="- 59" and m=6917529041476140]; simp)
  have s4: "fdiv (Fin (1729382260369035 / 144115188075855872)) (Fin 1) = Fin (1729382260369035 / 144115188075855872)"
    by (simp add: fdiv_Fin, rule f64_round_eqI[where k="- 7" and e="- 59" and m=6917529041476140]; simp)
  have s5: "math_Pow_10 12 = Fin 1000000000000"
    unfolding math_Pow_10_def by (simp, rule f64_round_eqI[where k=39 and e="- 13" and m=8192000000000000]; simp)
  have s6: "fmul (Fin (1729382260369035 / 144115188075855872)) (Fin 1000000000000) = Fin 12000000024"
    by (simp add: fmul_Fin, rule f64_round_eqI[where k=33 and e="- 19" and m=6291456012582912]; simp)
  have s7: "math_Round (Fin 12000000024) = Fin 12000000024"
    by (rule math_Round_eqI[where n=12000000024]; simp add: signed_zero_def)
  have s8: "fdiv (Fin 12000000024) (Fin 1000000000000) = Fin (1729382260369035 / 144115188075855872)"
    by (simp add: fdiv_Fin, rule f64_round_eqI[where k="- 7" and e="- 59" and m=6917529041476140]; simp)
  have s9: "round12 (Fin (1729382260369035 / 144115188075855872)) = Fin (1729382260369035 / 144115188075855872)"
    by (simp add: round12_def Let_def s1 s2 s3 s4 s5 s6 s7 s8)
  show ?thesis
    by (simp add: Convert_def Let_def units_min units_s s1 s2 s3 s4 s5 s6 s7 s8 s9)
qed

lemma Convert_small_s_min:
  "Convert NewUnitConverter (Fin (1729382260369035 / 144115188075855872)) ''s'' ''min'' = (Fin (7378697629483821 / 36893488147419103232), None)"
proof -
  have s1: "lit 1 = Fin 1"
    unfolding lit_def by (rule f64_round_eqI[where k=0 and e="- 52" and m=4503599627370496]; simp)
  have s2: "lit 60 = Fin 60"
    unfolding lit_def by (rule f64_round_eqI[where k=5 and e="- 47" and m=8444249301319680]; simp)
  have s3: "fmul (Fin (1729382260369035 / 144115188075855872)) (Fin 1) = Fin (1729382260369035 / 144115188075855872)"
    by (simp add: fmul_Fin, rule f64_round_eqI[where k="- 7" and e="- 59" and m=6917529041476140]; simp)
  have s4: "fdiv (Fin (1729382260369035 / 144115188075855872)) (Fin 60) = Fin (115292150691269 / 576460752303423488)"
    by (simp add: fdiv_Fin, rule f64_round_eqI[where k="- 13" and e="- 65" and m=7378697644241216]; simp)
  have s5: "math_Pow_10 12 = Fin 1000000000000"
    unfolding math_Pow_10_def by (simp, rule f64_round_eqI[where k=39 and e="- 13" and m=8192000000000000]; simp)
  have s6: "fmul (Fin (115292150691269 / 576460752303423488)) (Fin 1000000000000) = Fin (6710886413421773 / 33554432)"
    by (simp add: fmul_Fin, rule f64_round_eqI[where k=27 and e="- 25" and m=6710886413421773]; simp)
  have s7: "math_Round (Fin (6710886413421773 / 33554432)) = Fin 200000000"
    by (rule math_Round_eqI[where n=200000000]; simp add: signed_zero_def)
  have s8: "fdiv (Fin 200000000) (Fin 1000000000000) = Fin (7378697629483821 / 36893488147419103232)"
    by (simp add: fdiv_Fin, rule f64_round_eqI[where k="- 13" and e="- 65" and m=7378697629483821]; simp)
  have s9: "round12 (Fin (115292150691269 / 576460752303423488)) = Fin (7378697629483821 / 36893488147419103232)"
    by (simp add: round12_def Let_def s1 s2 s3 s4 s5 s6 s7 s8)
  show ?thesis
    by (simp add: Convert_def Let_def units_s units_min s1 s2 s3 s4 s5 s6 s7 s8 s9)
qed

lemma Convert_1e296_C_F:
  "\<not> is_nan (lit (10 ^ 296)) \<and> \<not> is_inf (lit (10 ^ 296))
   \<and> Convert NewUnitConverter (lit (10 ^ 296)) ''C'' ''F'' = (PosInf, None)"
proof -
  define V :: rat where "V = 5509016039626555 * 2 ^ 931"
  define W :: rat where "W = 4958114435663899 * 2 ^ 932"
  have s1: "lit (10 ^ 296) = Fin V"
    unfolding lit_def V_def by (rule f64_round_eqI[where k=983 and e=931 and m=5509016039626555]; simp)
  have s2: "lit 1 = Fin 1"
    unfolding lit_def by (rule f64_round_eqI[where k=0 and e="- 52" and m=4503599627370496]; simp)
  have s3: "lit (5 / 9) = Fin (2501999792983609 / 4503599627370496)"
    unfolding lit_def by (rule f64_round_eqI[where k="- 1" and e="- 53" and m=5003999585967218]; simp)
  have s4: "lit (5463 / 20) = Fin (2402652809016115 / 8796093022208)"
    unfolding lit_def by (rule f64_round_eqI[where k=8 and e="- 44" and m=4805305618032230]; simp)
  have s5: "lit (63843 / 250) = Fin (4492551734534603 / 17592186044416)"
    unfolding lit_def by (rule f64_round_eqI[where k=7 and e="- 45" and m=8985103469069206]; simp)
  have s6: "fmul (Fin V) (Fin 1) = Fin V"
    unfolding V_def by (simp add: fmul_Fin, rule f64_round_eqI[where k=983 and e=931 and m=5509016039626555]; simp)
  have s7: "fadd (Fin V) (Fin (2402652809016115 / 8796093022208)) = Fin V"
    unfolding V_def by (simp add: fadd_Fin, rule f64_round_eqI[where k=983 and e=931 and m=5509016039626555]; simp)
  have s8: "fsub (Fin V) (Fin (4492551734534603 / 17592186044416)) = Fin V"
    unfolding V_def by (simp add: fsub_Fin, rule f64_round_eqI[where k=983 and e=931 and m=5509016039626555]; simp)
  have s9: "fdiv (Fin V) (Fin (2501999792983609 / 4503599627370496)) = Fin W"
    unfolding V_def W_def by (simp add: fdiv_Fin, rule f64_round_eqI[where k=984 and e=932 and m=4958114435663899]; simp)
  have s10: "math_Pow_10 12 = Fin 1000000000000"
    unfolding math_Pow_10_def by (simp, rule f64_round_eqI[where k=39 and e="- 13" and m=8192000000000000]; simp)
  have s11: "fmul (Fin W) (Fin 1000000000000) = PosInf"
    unfolding W_def by (simp add: fmul_Fin, rule f64_round_ovfI[where k=1024 and e=972 and m=4509378810020188]; simp)
  have s12: "fdiv PosInf (Fin 1000000000000) = PosInf"
    by (simp add: fdiv_def signed_inf_def)
  have s13: "round12 (Fin W) = PosInf"
    by (simp add: round12_def Let_def s10 s11 s12)
  have c: "Convert NewUnitConverter (Fin V) ''C'' ''F'' = (PosInf, None)"
    by (simp add: Convert_def Let_def units_C units_F s2 s3 s4 s5 s6 s7 s8 s9 s13)
  show ?thesis unfolding s1 using c by simp
qed

lemma Convert_inf_F_C: "Convert NewUnitConverter PosInf ''F'' ''C'' = (PosInf, None)"
proof -
  have s2: "lit 1 = Fin 1"
    unfolding lit_def by (rule f64_round_eqI[where k=0 and e="- 52" and m=4503599627370496]; simp)
  have s3: "lit (5 / 9) = Fin (2501999792983609 / 4503599627370496)"
    unfolding lit_def by (rule f64_round_eqI[where k="- 1" and e="- 53" and m=5003999585967218]; simp)
  have s4: "lit (5463 / 20) = Fin (2402652809016115 / 8796093022208)"
    unfolding lit_def by (rule f64_round_eqI[where k=8 and e="- 44" and m=4805305618032230]; simp)
  have s5: "lit (63843 / 250) = Fin (4492551734534603 / 17592186044416)"
    unfolding lit_def by (rule f64_round_eqI[where k=7 and e="- 45" and m=8985103469069206]; simp)
  show ?thesis
    by (simp add: Convert_def Let_def units_C units_F s2 s3 s4 s5 fmul_def fadd_def fsub_def fdiv_def
          signed_inf_def round12_def math_Pow_10_12)
qed

lemma lit_10_12: "lit 1000000000000 = Fin 1000000000000"
  unfolding lit_def by (rule f64_round_eqI[where k=39 and e="- 13" and m=8192000000000000]; simp)

section \<open>The registry\<close>

lemma in_range_Fin [simp]: "in_range (Fin x) lo hi \<longleftrightarrow> lo \<le> x \<and> x \<le> hi"
  by (simp add: in_range_def)

lemma lit_in_range:
  assumes "2 powi (- 1022) \<le> c" "c < 2 powi 1023"
    and "lo \<le> c * (1 - 2 powi (- 53))" "c * (1 + 2 powi (- 53)) \<le> hi"
  shows "in_range (lit c) lo hi"
proof -
  from f64_round_normal_pos[OF assms(1,2)] obtain y where
    y: "f64_round c = Fin y" "\<bar>y - c\<bar> \<le> c * 2 powi (- 53)" by blast
  define d where "d = c * 2 powi (- 53)"
  have e: "c * (1 - 2 powi (- 53)) = c - d" "c * (1 + 2 powi (- 53)) = c + d"
    by (simp_all add: d_def algebra_simps)
  have "\<bar>y - c\<bar> \<le> d" using y(2) by (simp only: d_def)
  then have "c - d \<le> y" "y \<le> c + d" by linarith+
  then have "lo \<le> y" "y \<le> hi" using assms(3,4) unfolding e by linarith+
  then show ?thesis using y(1) by (simp add: lit_def)
qed

lemma lit_in_range_small:
  assumes "1 / 2 ^ 40 \<le> c" "c \<le> 2 ^ 41"
    and "lo \<le> c * (9007199254740991 / 9007199254740992)"
    and "c * (9007199254740993 / 9007199254740992) \<le> hi"
  shows "in_range (lit c) lo hi"
proof (rule lit_in_range)
  have "(2::rat) powi (- 1022) \<le> 1 / 2 ^ 40" by simp
  then show "2 powi (- 1022) \<le> c" using assms(1) by linarith
  have "(2::rat) ^ 41 < 2 powi 1023" by simp
  then show "c < 2 powi 1023" using assms(2) by linarith
  show "lo \<le> c * (1 - 2 powi (- 53))" using assms(3) by simp
  show "c * (1 + 2 powi (- 53)) \<le> hi" using assms(4) by simp
qed

lemma fadd_0_offsets:
  "fadd (Fin 0) (Fin 0) = Fin 0"
  "fadd (Fin 0) (Fin (2402652809016115 / 8796093022208)) = Fin (2402652809016115 / 8796093022208)"
  "fadd (Fin 0) (Fin (4492551734534603 / 17592186044416)) = Fin (4492551734534603 / 17592186044416)"
    apply (simp add: fadd_def signed_zero_def)
   apply (simp add: fadd_Fin, rule f64_round_eqI[where k=8 and e="- 44" and m=4805305618032230]; simp)
  apply (simp add: fadd_Fin, rule f64_round_eqI[where k=7 and e="- 45" and m=8985103469069206]; simp)
  done

lemma lit_255_372: "lit (63843 / 250) = Fin (4492551734534603 / 17592186044416)"
  unfolding lit_def by (rule f64_round_eqI[where k=7 and e="- 45" and m=8985103469069206]; simp)

lemma unit_table_ranges:
  "\<forall>(s, u) \<in> set unit_table.
     in_range (Factor u) (2 powi (- 30)) (2 powi 40)
     \<and> (Dimension u = ''temperature'' \<longrightarrow>
          in_range (Factor u) (1 / 2) 1 \<and> in_range (Offset u) 0 274
          \<and> fadd (Fin 0) (Offset u) = Offset u)
     \<and> (Dimension u \<noteq> ''temperature'' \<longrightarrow> Offset u = Fin 0)"
  by (simp add: unit_table_def lit_in_range_small math_Pi_def lit_1 lit_273_15 lit_255_372 fadd_0_offsets)

lemma units_ranges:
  assumes "units NewUnitConverter s = Some u"
  shows "\<exists>f o'. Factor u = Fin f \<and> 2 powi (- 30) \<le> f \<and> f \<le> 2 powi 40
          \<and> (Dimension u = ''temperature'' \<longrightarrow>
                Offset u = Fin o' \<and> 1 / 2 \<le> f \<and> f \<le> 1 \<and> 0 \<le> o' \<and> o' \<le> 274
                \<and> fadd (Fin 0) (Fin o') = Fin o')"
proof -
  have "(s, u) \<in> set unit_table"
    using assms by (auto simp: NewUnitConverter_def dest: map_of_SomeD)
  with unit_table_ranges have
    r: "in_range (Factor u) (2 powi (- 30)) (2 powi 40)"
       "Dimension u = ''temperature'' \<longrightarrow>
          in_range (Factor u) (1 / 2) 1 \<and> in_range (Offset u) 0 274
          \<and> fadd (Fin 0) (Offset u) = Offset u"
    by blast+
  from r(1) obtain f where f: "Factor u = Fin f" "2 powi (- 30) \<le> f" "f \<le> 2 powi 40"
    unfolding in_range_def by blast
  show ?thesis
  proof (cases "Dimension u = ''temperature''")
    case True
    with r(2) obtain o' where "Offset u = Fin o'" "0 \<le> o'" "o' \<le> 274"
      unfolding in_range_def by blast
    moreover have "1 / 2 \<le> f" "f \<le> 1" using r(2) True f(1) by simp_all
    moreover have "fadd (Fin 0) (Offset u) = Offset u" using r(2) True by simp
    ultimately show ?thesis using f by auto
  next
    case False
    then show ?thesis using f by auto
  qed
qed

text \<open>
  C9.  Every unit definition of the registry built by \<^verbatim>\<open>NewUnitConverter\<close> has a factor
  that is strictly greater than zero, and every unit whose dimension is not
  \<^verbatim>\<open>temperature\<close> has the offset 0.  (The registry is a constant of the model: no
  operation returns a changed converter.)
\<close>

theorem registry_invariant:
  assumes "units NewUnitConverter s = Some u"
  shows "f64_less (Fin 0) (Factor u) \<and> (Dimension u \<noteq> ''temperature'' \<longrightarrow> Offset u = Fin 0)"
proof -
  have "(s, u) \<in> set unit_table"
    using assms by (auto simp: NewUnitConverter_def dest: map_of_SomeD)
  with unit_table_ranges have
    r: "in_range (Factor u) (2 powi (- 30)) (2 powi 40)"
       "Dimension u \<noteq> ''temperature'' \<longrightarrow> Offset u = Fin 0"
    by blast+
  from r(1) obtain f where "Factor u = Fin f" "2 powi (- 30) \<le> f"
    unfolding in_range_def by blast
  then have "f64_less (Fin 0) (Factor u)" by (simp add: f64_less_def)
  with r(2) show ?thesis by simp
qed

theorem registry_invariant_witness:
  "units NewUnitConverter ''kg'' =
     Some \<lparr>Factor = lit 1000, Dimension = ''mass'', Name = ''Kilogram'', Offset = lit 0\<rparr>
   \<and> f64_less (Fin 0) (lit 1000) \<and> lit 0 = Fin 0"
  using registry_invariant[OF units_kg] units_kg by simp

section \<open>Errors of the conversion\<close>

text \<open>
  C3.  \<^verbatim>\<open>Convert\<close> returns an error exactly when the source symbol is absent from the
  registry (invalid source unit), or the source is present and the target absent
  (invalid target unit), or both are present with different dimension tags (dimension
  mismatch); for two registered units of the same dimension it succeeds, whatever the
  value.
\<close>

theorem Convert_error_iff:
  "((snd (Convert uc v from to) \<noteq> None) =
      (units uc from = None
       \<or> (units uc from \<noteq> None \<and> units uc to = None)
       \<or> (\<exists>a b. units uc from = Some a \<and> units uc to = Some b \<and> Dimension a \<noteq> Dimension b)))
   \<and> (units uc from = None \<longrightarrow> snd (Convert uc v from to) = Some (InvalidSourceUnit from))
   \<and> (\<forall>a. units uc from = Some a \<and> units uc to = None \<longrightarrow>
          snd (Convert uc v from to) = Some (InvalidTargetUnit to))
   \<and> (\<forall>a b. units uc from = Some a \<and> units uc to = Some b \<and> Dimension a \<noteq> Dimension b \<longrightarrow>
          snd (Convert uc v from to) = Some (DimensionMismatch from (Dimension a) to (Dimension b)))
   \<and> (\<forall>a b. units uc from = Some a \<and> units uc to = Some b \<and> Dimension a = Dimension b \<longrightarrow>
          snd (Convert uc v from to) = None)"
  by (auto simp: Convert_def Let_def split: option.splits)

theorem Convert_error_iff_witness:
  "snd (Convert NewUnitConverter (Fin 1) ''kg'' ''m'') = Some (DimensionMismatch ''kg'' ''mass'' ''m'' ''length'')
   \<and> snd (Convert NewUnitConverter (Fin 1) ''kg'' ''unknown'') = Some (InvalidTargetUnit ''unknown'')
   \<and> snd (Convert NewUnitConverter (Fin 1) ''unknown'' ''kg'') = Some (InvalidSourceUnit ''unknown'')
   \<and> snd (Convert NewUnitConverter (Fin 1) ''kg'' ''g'') = None"
  using Convert_error_iff[of NewUnitConverter "Fin 1" "''kg''" "''m''"]
        Convert_error_iff[of NewUnitConverter "Fin 1" "''kg''" "''unknown''"]
        Convert_error_iff[of NewUnitConverter "Fin 1" "''unknown''" "''kg''"]
        Convert_error_iff[of NewUnitConverter "Fin 1" "''kg''" "''g''"]
  by (simp add: units_kg units_g units_m units_unknown)

text \<open>
  C10.  When both symbols are absent from the registry, \<^verbatim>\<open>Convert\<close> reports the invalid
  source unit (the source is looked up first), and the number it returns with the error
  is 0.
\<close>

theorem Convert_both_absent:
  assumes "units uc from = None" "units uc to = None"
  shows "Convert uc v from to = (Fin 0, Some (InvalidSourceUnit from))"
  using assms by (simp add: Convert_def)

theorem Convert_both_absent_witness:
  "units NewUnitConverter ''unknown'' = None \<and> units NewUnitConverter ''nothing'' = None
   \<and> Convert NewUnitConverter (Fin 5) ''unknown'' ''nothing''
       = (Fin 0, Some (InvalidSourceUnit ''unknown''))"
  using Convert_both_absent[OF units_unknown units_nothing, of "Fin 5"] units_unknown units_nothing
  by simp

section \<open>The arithmetic of the conversion\<close>

text \<open>
  C4.  For two registered temperature units \<^verbatim>\<open>Convert\<close> computes
  \<^verbatim>\<open>base = value * fromFactor + fromOffset\<close>, then \<^verbatim>\<open>(base - toOffset) / toFactor\<close>, and
  rounds the result at 12 decimals, and \<^verbatim>\<open>Convert(0, "C", "K")\<close> is the float64 273.15
  exactly.  The two Fahrenheit values miss: the registry gives Fahrenheit the offset
  255.372, where the scale needs \<open>459.67 \<sqdot> 5/9 = 255.3722\<dots>\<close>, so \<^verbatim>\<open>Convert(32, "F", "C")\<close> is
  -0.000222222222 and \<^verbatim>\<open>Convert(100, "C", "F")\<close> is 212.0004, each further than \<open>10\<^sup>-\<^sup>4\<close> from
  0 and from 212.  With the offset \<open>459.67 \<sqdot> 5/9\<close> the same steps give 0 and 212.
\<close>

theorem temperature_conversion:
  "(\<forall>a b. units uc from = Some a \<and> units uc to = Some b
        \<and> Dimension a = ''temperature'' \<and> Dimension b = ''temperature'' \<longrightarrow>
      Convert uc v from to =
        (round12 (fdiv (fsub (fadd (fmul v (Factor a)) (Offset a)) (Offset b)) (Factor b)), None))
   \<and> Convert NewUnitConverter (Fin 0) ''C'' ''K'' = (lit 273.15, None)
   \<and> map_option Offset (units NewUnitConverter ''F'') = Some (lit 255.372)
   \<and> Convert NewUnitConverter (Fin 32) ''F'' ''C'' = (lit (- 0.000222222222), None)
   \<and> lit (- 0.000222222222) = Fin (- (8198552913450137 / 36893488147419103232))
   \<and> 1 / 10 ^ 4 < \<bar>- (8198552913450137 / 36893488147419103232) - (0::rat)\<bar>
   \<and> Convert NewUnitConverter (Fin 100) ''C'' ''F'' = (lit 212.0004, None)
   \<and> lit 212.0004 = Fin (1864775239145305 / 8796093022208)
   \<and> 1 / 10 ^ 4 < \<bar>1864775239145305 / 8796093022208 - (212::rat)\<bar>
   \<and> round12 (fdiv (fsub (fadd (fmul (Fin 32) (lit (5 / 9))) (lit (459.67 * 5 / 9))) (lit 273.15)) (lit 1))
        = Fin 0
   \<and> round12 (fdiv (fsub (fadd (fmul (Fin 100) (lit 1)) (lit 273.15)) (lit (459.67 * 5 / 9))) (lit (5 / 9)))
        = Fin 212"
proof -
  have "\<forall>a b. units uc from = Some a \<and> units uc to = Some b
        \<and> Dimension a = ''temperature'' \<and> Dimension b = ''temperature'' \<longrightarrow>
      Convert uc v from to =
        (round12 (fdiv (fsub (fadd (fmul v (Factor a)) (Offset a)) (Offset b)) (Factor b)), None)"
    by (simp add: Convert_def Let_def)
  moreover have "Convert NewUnitConverter (Fin 0) ''C'' ''K'' = (lit 273.15, None)"
    by (simp add: Convert_0_C_K lit_273_15)
  moreover have "map_option Offset (units NewUnitConverter ''F'') = Some (lit 255.372)"
    by (simp add: units_F)
  moreover have "Convert NewUnitConverter (Fin 32) ''F'' ''C'' = (lit (- 0.000222222222), None)
      \<and> lit (- 0.000222222222) = Fin (- (8198552913450137 / 36893488147419103232))"
    using lit_F_C by (simp add: Convert_32_F_C)
  moreover have "Convert NewUnitConverter (Fin 100) ''C'' ''F'' = (lit 212.0004, None)
      \<and> lit 212.0004 = Fin (1864775239145305 / 8796093022208)"
    using lit_C_F by (simp add: Convert_100_C_F)
  moreover have "(1 / 10 ^ 4 :: rat) < \<bar>- (8198552913450137 / 36893488147419103232) - 0\<bar>"
    "(1 / 10 ^ 4 :: rat) < \<bar>1864775239145305 / 8796093022208 - 212\<bar>"
    by simp_all
  moreover have "round12 (fdiv (fsub (fadd (fmul (Fin 32) (lit (5 / 9))) (lit (459.67 * 5 / 9))) (lit 273.15)) (lit 1))
        = Fin 0"
    using exact_offset_32_F_C by simp
  moreover have "round12 (fdiv (fsub (fadd (fmul (Fin 100) (lit 1)) (lit 273.15)) (lit (459.67 * 5 / 9))) (lit (5 / 9)))
        = Fin 212"
    using exact_offset_100_C_F by simp
  ultimately show ?thesis by (intro conjI) (elim conjE, assumption)+
qed

theorem temperature_conversion_witness:
  "units NewUnitConverter ''C'' =
     Some \<lparr>Factor = lit 1, Dimension = ''temperature'', Name = ''Celsius'', Offset = lit 273.15\<rparr>
   \<and> units NewUnitConverter ''K'' =
     Some \<lparr>Factor = lit 1, Dimension = ''temperature'', Name = ''Kelvin'', Offset = lit 0\<rparr>
   \<and> Convert NewUnitConverter (Fin 0) ''C'' ''K''
     = (round12 (fdiv (fsub (fadd (fmul (Fin 0) (lit 1)) (lit 273.15)) (lit 0)) (lit 1)), None)"
  using temperature_conversion[where uc = NewUnitConverter and v = "Fin 0" and ?from = "''C''" and to = "''K''"]
    units_C units_K
  by simp



section \<open>The result formatter\<close>

text \<open>
  The shape of what the two verbs print for a finite value: \<^verbatim>\<open>%.<p>f\<close> gives a sign, at
  least one digit, and for \<open>p > 0\<close> the point and exactly \<open>p\<close> digits; \<^verbatim>\<open>%.6e\<close> gives a sign,
  one digit, the point, exactly 6 digits, and the exponent with its sign and at least two
  digits.
\<close>

lemma digit_char_in: "(d::nat) < 10 \<Longrightarrow> is_digit (digit_char d)"
proof -
  assume "d < 10"
  then have "d = 0 \<or> d = 1 \<or> d = 2 \<or> d = 3 \<or> d = 4 \<or> d = 5 \<or> d = 6 \<or> d = 7
    \<or> d = 8 \<or> d = 9" by presburger
  then show ?thesis by (elim disjE) (simp_all add: digit_char_def is_digit_def)
qed

lemma dec_digits_set: "list_all is_digit (dec_digits n)"
proof (induction n rule: dec_digits.induct)
  case (1 n)
  show ?case
  proof (cases "n < 10")
    case True
    then show ?thesis using digit_char_in[of n] by (simp add: dec_digits_small)
  next
    case False
    then have "list_all is_digit (dec_digits (n div 10))" using 1 by simp
    moreover have "is_digit (digit_char (n mod 10))" by (rule digit_char_in) simp
    ultimately show ?thesis using False by (simp add: dec_digits_big)
  qed
qed

lemma dec_digits_nonempty: "dec_digits n \<noteq> []"
  by (subst dec_digits.simps) simp

lemma length_dec_digits: "n < 10 ^ k \<Longrightarrow> 0 < k \<Longrightarrow> length (dec_digits n) \<le> k"
proof (induction k arbitrary: n)
  case 0
  then show ?case by simp
next
  case (Suc k)
  show ?case
  proof (cases "n < 10")
    case True
    then show ?thesis by (simp add: dec_digits_small)
  next
    case False
    then have k: "0 < k" using Suc.prems by (cases k) simp_all
    have "n div 10 < 10 ^ k" using Suc.prems(1) by (simp add: less_mult_imp_div_less mult.commute)
    then have "length (dec_digits (n div 10)) \<le> k" using k by (rule Suc.IH)
    then show ?thesis using False by (simp add: dec_digits_big)
  qed
qed

lemma length_pad_zeros: "length s \<le> w \<Longrightarrow> length (pad_zeros w s) = w"
  by (simp add: pad_zeros_def)

lemma set_pad_zeros: "list_all is_digit s \<Longrightarrow> list_all is_digit (pad_zeros w s)"
proof -
  have "is_digit (CHR ''0'')" by (simp add: is_digit_def)
  then have "list_all is_digit (replicate (w - length s) (CHR ''0''))" by (simp add: list_all_iff)
  then show "list_all is_digit s \<Longrightarrow> list_all is_digit (pad_zeros w s)"
    by (simp add: pad_zeros_def)
qed

lemma fixed_digits_shape:
  "\<exists>ip fs. fixed_digits p a = ip @ (if p = 0 then [] else ''.'' @ fs)
      \<and> ip \<noteq> [] \<and> list_all is_digit ip \<and> length fs = p \<and> list_all is_digit fs"
proof -
  define n where "n = nat (round_even (a * 10 ^ p))"
  define fs where "fs = (if p = 0 then [] else pad_zeros p (dec_digits (n mod 10 ^ p)))"
  have "n mod 10 ^ p < 10 ^ p" by simp
  then have "0 < p \<Longrightarrow> length (dec_digits (n mod 10 ^ p)) \<le> p" by (rule length_dec_digits)
  then have l: "length fs = p" by (simp add: fs_def length_pad_zeros)
  have s: "list_all is_digit fs" by (simp add: fs_def set_pad_zeros dec_digits_set)
  have "fixed_digits p a = dec_digits (n div 10 ^ p) @ (if p = 0 then [] else ''.'' @ fs)"
    by (simp add: fixed_digits_def Let_def n_def fs_def)
  then have "fixed_digits p a = dec_digits (n div 10 ^ p) @ (if p = 0 then [] else ''.'' @ fs)
      \<and> dec_digits (n div 10 ^ p) \<noteq> [] \<and> list_all is_digit (dec_digits (n div 10 ^ p))
      \<and> length fs = p \<and> list_all is_digit fs"
    using l s dec_digits_nonempty dec_digits_set by simp
  then show ?thesis
    by (intro exI[of _ "dec_digits (n div 10 ^ p)"] exI[of _ fs])
qed

lemma sci_mantissa_bound:
  fixes a :: rat
  assumes "0 < a"
  shows "nat (round_even (a / 10 powi (flog 10 a - int p))) \<le> 10 ^ (p + 1)"
proof -
  have "a < 10 powi (flog 10 a + 1)" using flog_bounds[of 10 a] assms by simp
  also have "\<dots> = 10 powi (flog 10 a - int p) * 10 ^ (p + 1)"
    by (simp add: power_int_add[symmetric] flip: power_int_of_nat)
  finally have "a / 10 powi (flog 10 a - int p) < 10 ^ (p + 1)"
    by (simp add: pos_divide_less_eq mult.commute)
  moreover have "\<bar>of_int (round_even (a / 10 powi (flog 10 a - int p))) - a / 10 powi (flog 10 a - int p)\<bar> \<le> 1 / 2"
    by (rule round_even_err)
  ultimately have "(of_int (round_even (a / 10 powi (flog 10 a - int p))) :: rat) < 10 ^ (p + 1) + 1"
    by linarith
  then have "(of_int (round_even (a / 10 powi (flog 10 a - int p))) :: rat) < of_int (10 ^ (p + 1) + 1)"
    by simp
  then have "round_even (a / 10 powi (flog 10 a - int p)) < 10 ^ (p + 1) + 1"
    by (simp only: of_int_less_iff)
  then have "nat (round_even (a / 10 powi (flog 10 a - int p))) \<le> nat (10 ^ (p + 1))"
    by (intro nat_mono) simp
  moreover have "nat ((10::int) ^ (p + 1)) = 10 ^ (p + 1)"
    using nat_power_eq[of 10 "p + 1"] by simp
  ultimately show ?thesis by (simp only:)
qed

lemma sci_digits_shape:
  fixes a :: rat
  assumes "0 \<le> a"
  shows "\<exists>d fs sg ed. sci_digits 6 a = d # ''.'' @ fs @ ''e'' @ sg # ed
      \<and> is_digit d \<and> length fs = 6 \<and> list_all is_digit fs
      \<and> (sg = CHR ''+'' \<or> sg = CHR ''-'') \<and> 2 \<le> length ed \<and> list_all is_digit ed"
proof -
  define ne where "ne = (if a = 0 then (0, 0)
             else let e0 = flog 10 a;
                      n0 = nat (round_even (a / 10 powi (e0 - int 6)))
                  in if 10 ^ (6 + 1) \<le> n0 then (n0 div 10, e0 + 1) else (n0, e0))"
  define n where "n = fst ne"
  define e where "e = snd ne"
  define ds where "ds = pad_zeros 7 (dec_digits n)"
  define ed where "ed = pad_zeros 2 (dec_digits (nat \<bar>e\<bar>))"
  define sg where "sg = (if e < 0 then CHR ''-'' else CHR ''+'')"
  have n: "n < 10 ^ 7"
  proof (cases "a = 0")
    case True
    then show ?thesis by (simp add: n_def ne_def)
  next
    case False
    then have "0 < a" using assms by simp
    then have "nat (round_even (a / 10 powi (flog 10 a - int 6))) \<le> 10 ^ (6 + 1)"
      by (rule sci_mantissa_bound)
    then show ?thesis using False by (auto simp: n_def ne_def Let_def)
  qed
  then have "length (dec_digits n) \<le> 7" by (rule length_dec_digits) simp
  then have l: "length ds = 7" unfolding ds_def by (rule length_pad_zeros)
  have s: "list_all is_digit ds" unfolding ds_def by (rule set_pad_zeros) (rule dec_digits_set)
  obtain d fs where ds: "ds = d # fs" using l by (cases ds) simp_all
  have fs: "length fs = 6" "is_digit d" "list_all is_digit fs" using l s ds by simp_all
  have ed1: "list_all is_digit ed" unfolding ed_def by (rule set_pad_zeros) (rule dec_digits_set)
  have ed2: "2 \<le> length ed" by (simp add: ed_def pad_zeros_def)
  have sg: "sg = CHR ''+'' \<or> sg = CHR ''-''" by (simp add: sg_def)
  have "sci_digits 6 a = take 1 ds @ ''.'' @ drop 1 ds @ ''e'' @ sg # ed"
    by (simp add: sci_digits_def ne_def[symmetric] n_def e_def ds_def ed_def sg_def split_beta Let_def
        del: One_nat_def)
  then have "sci_digits 6 a = d # ''.'' @ fs @ ''e'' @ sg # ed"
    by (simp add: ds)
  then have "sci_digits 6 a = d # ''.'' @ fs @ ''e'' @ sg # ed
      \<and> is_digit d \<and> length fs = 6 \<and> list_all is_digit fs
      \<and> (sg = CHR ''+'' \<or> sg = CHR ''-'') \<and> 2 \<le> length ed \<and> list_all is_digit ed"
    using fs ed1 ed2 sg by simp
  then show ?thesis
    by (intro exI[of _ d] exI[of _ fs] exI[of _ sg] exI[of _ ed])
qed

lemma fmt_float_finite:
  "\<not> is_nan r \<Longrightarrow> \<not> is_inf r \<Longrightarrow>
     fmt_float digits r = (if sign_bit r then ''-'' else []) @ digits \<bar>val r\<bar>"
  by (cases r) (simp_all add: fmt_float_def)

lemma sprintf_e_shape:
  assumes "\<not> is_nan r" "\<not> is_inf r"
  shows "\<exists>d fs sg ed. sprintf_e 6 r = (if sign_bit r then ''-'' else []) @ d # ''.'' @ fs @ ''e'' @ sg # ed
      \<and> is_digit d \<and> length fs = 6 \<and> list_all is_digit fs
      \<and> (sg = CHR ''+'' \<or> sg = CHR ''-'') \<and> 2 \<le> length ed \<and> list_all is_digit ed"
proof -
  have "sprintf_e 6 r = (if sign_bit r then ''-'' else []) @ sci_digits 6 \<bar>val r\<bar>"
    unfolding sprintf_e_def using assms by (rule fmt_float_finite)
  moreover from sci_digits_shape[of "\<bar>val r\<bar>"] obtain d fs sg ed where
    "sci_digits 6 \<bar>val r\<bar> = d # ''.'' @ fs @ ''e'' @ sg # ed
      \<and> is_digit d \<and> length fs = 6 \<and> list_all is_digit fs
      \<and> (sg = CHR ''+'' \<or> sg = CHR ''-'') \<and> 2 \<le> length ed \<and> list_all is_digit ed"
    by auto
  ultimately have "sprintf_e 6 r = (if sign_bit r then ''-'' else []) @ d # ''.'' @ fs @ ''e'' @ sg # ed
      \<and> is_digit d \<and> length fs = 6 \<and> list_all is_digit fs
      \<and> (sg = CHR ''+'' \<or> sg = CHR ''-'') \<and> 2 \<le> length ed \<and> list_all is_digit ed"
    by simp
  then show ?thesis
    by (intro exI[of _ d] exI[of _ fs] exI[of _ sg] exI[of _ ed])
qed

lemma sprintf_f_shape:
  assumes "\<not> is_nan r" "\<not> is_inf r"
  shows "\<exists>ip fs. sprintf_f p r = (if sign_bit r then ''-'' else []) @ ip @ (if p = 0 then [] else ''.'' @ fs)
      \<and> ip \<noteq> [] \<and> list_all is_digit ip \<and> length fs = p \<and> list_all is_digit fs"
proof -
  have "sprintf_f p r = (if sign_bit r then ''-'' else []) @ fixed_digits p \<bar>val r\<bar>"
    unfolding sprintf_f_def using assms by (rule fmt_float_finite)
  moreover from fixed_digits_shape[of p "\<bar>val r\<bar>"] obtain ip fs where
    "fixed_digits p \<bar>val r\<bar> = ip @ (if p = 0 then [] else ''.'' @ fs)
      \<and> ip \<noteq> [] \<and> list_all is_digit ip \<and> length fs = p \<and> list_all is_digit fs"
    by auto
  ultimately have "sprintf_f p r = (if sign_bit r then ''-'' else []) @ ip @ (if p = 0 then [] else ''.'' @ fs)
      \<and> ip \<noteq> [] \<and> list_all is_digit ip \<and> length fs = p \<and> list_all is_digit fs"
    by simp
  then show ?thesis
    by (intro exI[of _ ip] exI[of _ fs])
qed

text \<open>
  C6.  The claim that \<^verbatim>\<open>FormatResult\<close> prints every float64 beyond 1000000 in scientific
  notation with 6 digits after the point fails at the infinities: \<open>+\<infinity>\<close> exceeds 1000000, the
  first branch is taken, and the verb \<^verbatim>\<open>%.6e\<close> prints it by name.
\<close>

theorem FormatResult_infinity_counterexample:
  "f64_less (lit 1000000) (math_Abs PosInf)
   \<and> FormatResult NewUnitConverter PosInf ''m'' = ''+Inf m''"
  by (simp add: FormatResult_def Let_def f64_less_def lit_1000000 sprintf_e_def fmt_float_def)

text \<open>
  C6, as the code computes.  With \<open>a\<close> the absolute value of the result: if \<open>a < 0.001\<close> or
  \<open>a > 1000000\<close>, \<^verbatim>\<open>FormatResult\<close> prints the result with the verb \<^verbatim>\<open>%.6e\<close>, a space and the
  unit; otherwise with the verb \<^verbatim>\<open>%.<p>f\<close>, a space and the unit, where \<open>p\<close> is 0 when
  \<open>a \<ge> 1000\<close>, 1 from 100, 2 from 10, 3 from 1, and 4 otherwise.  For a finite result
  \<^verbatim>\<open>%.6e\<close> is scientific notation (a sign, one digit, the point, exactly 6 digits and the
  exponent) and \<^verbatim>\<open>%.<p>f\<close> is fixed notation with exactly \<open>p\<close> digits after the point.  The
  infinities take the first branch and print as \<^verbatim>\<open>+Inf\<close> and \<^verbatim>\<open>-Inf\<close>; for NaN every
  comparison fails, so it takes the last branch and prints as \<^verbatim>\<open>NaN\<close>.
  \<^verbatim>\<open>format(1500000, "m")\<close> is \<^verbatim>\<open>1.500000e+06 m\<close>, \<^verbatim>\<open>format(42.5, "kg")\<close> is \<^verbatim>\<open>42.50 kg\<close>, and
  \<^verbatim>\<open>format(0.0005, "s")\<close> is \<^verbatim>\<open>5.000000e-04 s\<close>.
\<close>

theorem FormatResult_rule:
  "(f64_less (math_Abs r) (lit 0.001) \<or> f64_less (lit 1000000) (math_Abs r) \<longrightarrow>
      FormatResult uc r u = sprintf_e 6 r @ '' '' @ u)
   \<and> (\<not> (f64_less (math_Abs r) (lit 0.001) \<or> f64_less (lit 1000000) (math_Abs r)) \<longrightarrow>
        (f64_le (lit 1000) (math_Abs r) \<longrightarrow> FormatResult uc r u = sprintf_f 0 r @ '' '' @ u)
      \<and> (f64_le (lit 100) (math_Abs r) \<and> f64_less (math_Abs r) (lit 1000) \<longrightarrow>
            FormatResult uc r u = sprintf_f 1 r @ '' '' @ u)
      \<and> (f64_le (lit 10) (math_Abs r) \<and> f64_less (math_Abs r) (lit 100) \<longrightarrow>
            FormatResult uc r u = sprintf_f 2 r @ '' '' @ u)
      \<and> (f64_le (lit 1) (math_Abs r) \<and> f64_less (math_Abs r) (lit 10) \<longrightarrow>
            FormatResult uc r u = sprintf_f 3 r @ '' '' @ u)
      \<and> (f64_less (math_Abs r) (lit 1) \<longrightarrow> FormatResult uc r u = sprintf_f 4 r @ '' '' @ u))
   \<and> (\<not> is_nan r \<and> \<not> is_inf r \<longrightarrow>
        (\<exists>d fs sg ed.
            sprintf_e 6 r = (if sign_bit r then ''-'' else []) @ d # ''.'' @ fs @ ''e'' @ sg # ed
          \<and> is_digit d \<and> length fs = 6 \<and> list_all is_digit fs
          \<and> (sg = CHR ''+'' \<or> sg = CHR ''-'') \<and> 2 \<le> length ed \<and> list_all is_digit ed)
      \<and> (\<exists>ip fs.
            sprintf_f p r = (if sign_bit r then ''-'' else []) @ ip @ (if p = 0 then [] else ''.'' @ fs)
          \<and> ip \<noteq> [] \<and> list_all is_digit ip \<and> length fs = p \<and> list_all is_digit fs))
   \<and> FormatResult uc PosInf u = ''+Inf '' @ u
   \<and> FormatResult uc NegInf u = ''-Inf '' @ u
   \<and> FormatResult uc NaN u = ''NaN '' @ u
   \<and> FormatResult NewUnitConverter (Fin 1500000) ''m'' = ''1.500000e+06 m''
   \<and> FormatResult NewUnitConverter (Fin 42.5) ''kg'' = ''42.50 kg''
   \<and> FormatResult NewUnitConverter (lit 0.0005) ''s'' = ''5.000000e-04 s''"
proof -
  have ex: "FormatResult NewUnitConverter (Fin 1500000) ''m'' = ''1.500000e+06 m''
      \<and> FormatResult NewUnitConverter (Fin 42.5) ''kg'' = ''42.50 kg''
      \<and> FormatResult NewUnitConverter (lit 0.0005) ''s'' = ''5.000000e-04 s''"
    by (simp add: Format_1500000_m Format_42_5_kg Format_0_0005_s lit_0_0005)
  have gen: "(f64_less (math_Abs r) (lit 0.001) \<or> f64_less (lit 1000000) (math_Abs r) \<longrightarrow>
      FormatResult uc r u = sprintf_e 6 r @ '' '' @ u)
   \<and> (\<not> (f64_less (math_Abs r) (lit 0.001) \<or> f64_less (lit 1000000) (math_Abs r)) \<longrightarrow>
        (f64_le (lit 1000) (math_Abs r) \<longrightarrow> FormatResult uc r u = sprintf_f 0 r @ '' '' @ u)
      \<and> (f64_le (lit 100) (math_Abs r) \<and> f64_less (math_Abs r) (lit 1000) \<longrightarrow>
            FormatResult uc r u = sprintf_f 1 r @ '' '' @ u)
      \<and> (f64_le (lit 10) (math_Abs r) \<and> f64_less (math_Abs r) (lit 100) \<longrightarrow>
            FormatResult uc r u = sprintf_f 2 r @ '' '' @ u)
      \<and> (f64_le (lit 1) (math_Abs r) \<and> f64_less (math_Abs r) (lit 10) \<longrightarrow>
            FormatResult uc r u = sprintf_f 3 r @ '' '' @ u)
      \<and> (f64_less (math_Abs r) (lit 1) \<longrightarrow> FormatResult uc r u = sprintf_f 4 r @ '' '' @ u))"
    by (cases r)
       (auto simp add: FormatResult_def Let_def f64_less_def f64_le_def lit_1 lit_10 lit_100 lit_1000)
  have shape: "\<not> is_nan r \<and> \<not> is_inf r \<longrightarrow>
        (\<exists>d fs sg ed.
            sprintf_e 6 r = (if sign_bit r then ''-'' else []) @ d # ''.'' @ fs @ ''e'' @ sg # ed
          \<and> is_digit d \<and> length fs = 6 \<and> list_all is_digit fs
          \<and> (sg = CHR ''+'' \<or> sg = CHR ''-'') \<and> 2 \<le> length ed \<and> list_all is_digit ed)
      \<and> (\<exists>ip fs.
            sprintf_f p r = (if sign_bit r then ''-'' else []) @ ip @ (if p = 0 then [] else ''.'' @ fs)
          \<and> ip \<noteq> [] \<and> list_all is_digit ip \<and> length fs = p \<and> list_all is_digit fs)"
    using sprintf_e_shape[of r] sprintf_f_shape[of r p] by (intro impI conjI) simp_all
  have special: "FormatResult uc PosInf u = ''+Inf '' @ u
      \<and> FormatResult uc NegInf u = ''-Inf '' @ u
      \<and> FormatResult uc NaN u = ''NaN '' @ u"
    by (simp add: FormatResult_def Let_def f64_less_def f64_le_def lit_0_001 lit_1000000
          lit_1 lit_10 lit_100 lit_1000 sprintf_e_def sprintf_f_def fmt_float_def)
  from gen shape special ex show ?thesis by (intro conjI) (elim conjE, assumption)+
qed

theorem FormatResult_rule_witness:
  "f64_le (lit 10) (math_Abs (Fin 42.5)) \<and> f64_less (math_Abs (Fin 42.5)) (lit 100)
   \<and> \<not> (f64_less (math_Abs (Fin 42.5)) (lit 0.001) \<or> f64_less (lit 1000000) (math_Abs (Fin 42.5)))
   \<and> FormatResult NewUnitConverter (Fin 42.5) ''kg'' = sprintf_f 2 (Fin 42.5) @ '' kg''
   \<and> f64_less (lit 1000000) (math_Abs (Fin 1500000))
   \<and> FormatResult NewUnitConverter (Fin 1500000) ''m'' = sprintf_e 6 (Fin 1500000) @ '' m''
   \<and> \<not> is_nan (Fin 42.5) \<and> \<not> is_inf (Fin 42.5)
   \<and> (\<exists>ip fs. sprintf_f 2 (Fin 42.5) = ip @ ''.'' @ fs
          \<and> ip \<noteq> [] \<and> list_all is_digit ip \<and> length fs = 2 \<and> list_all is_digit fs)"
  using FormatResult_rule[where uc = NewUnitConverter and r = "Fin 42.5" and u = "''kg''" and p = 2]
        FormatResult_rule[where uc = NewUnitConverter and r = "Fin 1500000" and u = "''m''"]
  by (simp add: f64_less_def f64_le_def lit_10 lit_100 lit_0_001 lit_1000000)

section \<open>The conversion endpoint\<close>

lemma parse_digits_10: "parse_digits ''10'' = Some (Fin 10)"
proof -
  have "f64_round 10 = Fin 10"
    by (rule f64_round_eqI[where k=3 and e="- 49" and m=5629499534213120]; simp)
  then show ?thesis by (simp add: parse_digits_def digit_val_def Let_def)
qed

text \<open>
  C8.  A POST request to \<^verbatim>\<open>/convert\<close> with the fields \<^verbatim>\<open>value=10\<close>, \<^verbatim>\<open>from=kg\<close>, \<^verbatim>\<open>to=g\<close>
  is answered with status 200 and the body \<^verbatim>\<open>10000.000 g\<close> (\<^verbatim>\<open>strconv.ParseFloat\<close> reads
  \<^verbatim>\<open>10\<close> as the number 10).
\<close>

theorem convertHandler_10_kg_g:
  assumes "ParseFloat ''10'' = Some (Fin 10)"
    and "Method r = ''POST''" "ParseFormOk r"
    and "FormValue r ''value'' = ''10''" "FormValue r ''from'' = ''kg''" "FormValue r ''to'' = ''g''"
  shows "convertHandler ParseFloat NewUnitConverter r = \<lparr>Status = 200, Body = Text ''10000.000 g''\<rparr>"
  using assms by (simp add: convertHandler_def Let_def Convert_10_kg_g sprintf_f_3_10000)

theorem convertHandler_10_kg_g_witness:
  "parse_digits ''10'' = Some (Fin 10)
   \<and> convertHandler parse_digits NewUnitConverter
        \<lparr>Method = ''POST'', ParseFormOk = True,
         Form = [(''value'', ''10''), (''from'', ''kg''), (''to'', ''g'')]\<rparr>
       = \<lparr>Status = 200, Body = Text ''10000.000 g''\<rparr>"
  using convertHandler_10_kg_g[where ParseFloat = parse_digits
          and r = "\<lparr>Method = ''POST'', ParseFormOk = True,
                     Form = [(''value'', ''10''), (''from'', ''kg''), (''to'', ''g'')]\<rparr>"]
  by (simp add: parse_digits_10 FormValue_def)

text \<open>
  C7.  The comment above the last statement of the handler gives \<^verbatim>\<open>10.00 kg\<close> as an
  example of the answer, which is what \<^verbatim>\<open>FormatResult\<close> prints for 10 kilograms.  The
  handler does not call \<^verbatim>\<open>FormatResult\<close>: it writes the converted value with the verb
  \<^verbatim>\<open>%.3f\<close>, a space and the target symbol.  For \<^verbatim>\<open>value=10\<close>, \<^verbatim>\<open>from=kg\<close>, \<^verbatim>\<open>to=kg\<close> the body is
  \<^verbatim>\<open>10.000 kg\<close> where \<^verbatim>\<open>FormatResult\<close> gives \<^verbatim>\<open>10.00 kg\<close>, and for \<^verbatim>\<open>to=g\<close> it is
  \<^verbatim>\<open>10000.000 g\<close> where \<^verbatim>\<open>FormatResult\<close> gives \<^verbatim>\<open>10000 g\<close>.
\<close>

theorem convertHandler_body_divergence:
  assumes "ParseFloat ''10'' = Some (Fin 10)"
    and "Method r = ''POST''" "ParseFormOk r"
    and "FormValue r ''value'' = ''10''" "FormValue r ''from'' = ''kg''"
    and "FormValue r ''to'' = ''kg'' \<or> FormValue r ''to'' = ''g''"
  shows "(FormValue r ''to'' = ''kg'' \<longrightarrow>
            convertHandler ParseFloat NewUnitConverter r = \<lparr>Status = 200, Body = Text ''10.000 kg''\<rparr>)
       \<and> (FormValue r ''to'' = ''g'' \<longrightarrow>
            convertHandler ParseFloat NewUnitConverter r = \<lparr>Status = 200, Body = Text ''10000.000 g''\<rparr>)
       \<and> Convert NewUnitConverter (Fin 10) ''kg'' ''kg'' = (Fin 10, None)
       \<and> FormatResult NewUnitConverter (Fin 10) ''kg'' = ''10.00 kg''
       \<and> Convert NewUnitConverter (Fin 10) ''kg'' ''g'' = (Fin 10000, None)
       \<and> FormatResult NewUnitConverter (Fin 10000) ''g'' = ''10000 g''
       \<and> Body (convertHandler ParseFloat NewUnitConverter r)
           \<noteq> Text (FormatResult NewUnitConverter
                      (fst (Convert NewUnitConverter (Fin 10) ''kg'' (FormValue r ''to''))) (FormValue r ''to''))"
  using assms
  by (auto simp add: convertHandler_def Let_def Convert_10_kg_g Convert_10_kg_kg
        sprintf_f_3_10000 sprintf_f_3_10 Format_10000_g Format_10_kg)

theorem convertHandler_body_divergence_witness:
  "parse_digits ''10'' = Some (Fin 10)
   \<and> convertHandler parse_digits NewUnitConverter
        \<lparr>Method = ''POST'', ParseFormOk = True,
         Form = [(''value'', ''10''), (''from'', ''kg''), (''to'', ''kg'')]\<rparr>
       = \<lparr>Status = 200, Body = Text ''10.000 kg''\<rparr>
   \<and> FormatResult NewUnitConverter (fst (Convert NewUnitConverter (Fin 10) ''kg'' ''kg'')) ''kg''
       = ''10.00 kg''"
  using convertHandler_body_divergence[where ParseFloat = parse_digits
          and r = "\<lparr>Method = ''POST'', ParseFormOk = True,
                     Form = [(''value'', ''10''), (''from'', ''kg''), (''to'', ''kg'')]\<rparr>"]
  by (simp add: parse_digits_10 FormValue_def)

section \<open>Rounding errors\<close>

lemma f64_round_err:
  fixes x :: rat
  assumes hi: "\<bar>x\<bar> < 2 powi 1023"
  shows "near (f64_round x) x (\<bar>x\<bar> * uro + eta)"
proof (cases "x = 0")
  case True
  then show ?thesis by (simp add: near_def uro_def eta_def)
next
  case False
  then have x: "0 < \<bar>x\<bar>" by simp
  define k where "k = flog 2 \<bar>x\<bar>"
  have kb: "2 powi k \<le> \<bar>x\<bar>" "\<bar>x\<bar> < 2 powi (k + 1)"
    using flog_bounds[of 2 "\<bar>x\<bar>"] x by (simp_all add: k_def)
  have "(2::rat) powi k < 2 powi 1023" using hi kb by linarith
  then have k2: "k < 1023" using powi_less_cancel[of 2 k 1023] by simp
  define e where "e = max (- 1074) (k - 52)"
  define m where "m = round_even (\<bar>x\<bar> / 2 powi e)"
  define y where "y = (of_int m :: rat) * 2 powi e"
  have E: "0 < (2::rat) powi e" by simp
  have me: "\<bar>of_int m - \<bar>x\<bar> / 2 powi e\<bar> \<le> 1 / 2" unfolding m_def by (rule round_even_err)
  have "y - \<bar>x\<bar> = (of_int m - \<bar>x\<bar> / 2 powi e) * 2 powi e"
    by (simp add: y_def field_simps)
  then have "\<bar>y - \<bar>x\<bar>\<bar> = \<bar>of_int m - \<bar>x\<bar> / 2 powi e\<bar> * 2 powi e"
    by (simp add: abs_mult)
  also have "\<dots> \<le> 1 / 2 * 2 powi e" using me by (intro mult_right_mono) simp_all
  also have "\<dots> = 2 powi (e - 1)" using pow2_add[of "e - 1" 1] by simp
  finally have d: "\<bar>y - \<bar>x\<bar>\<bar> \<le> 2 powi (e - 1)" .
  have h: "(2::rat) powi (e - 1) \<le> \<bar>x\<bar> * uro + eta"
  proof (cases "- 1074 \<le> k - 52")
    case True
    then have "(2::rat) powi (e - 1) = 2 powi (k + (- 53))" by (simp add: e_def)
    also have "\<dots> = 2 powi k * 2 powi (- 53)" by (rule pow2_add)
    also have "\<dots> = 2 powi k * uro" by (simp only: uro_def)
    also have "\<dots> \<le> \<bar>x\<bar> * uro" using kb(1) by (intro mult_right_mono) (simp_all add: uro_def)
    finally show ?thesis by (simp add: eta_def)
  next
    case False
    then have e': "e = - 1074" by (simp add: e_def)
    have "(2::rat) powi (e - 1) = eta" unfolding e' eta_def by simp
    moreover have "0 \<le> \<bar>x\<bar> * uro" by (simp add: uro_def)
    ultimately show ?thesis by linarith
  qed
  have m0: "0 \<le> m"
  proof -
    have "0 \<le> \<bar>x\<bar> / 2 powi e" by simp
    then have "(- 1 :: rat) < of_int m" using me by linarith
    then have "(of_int (- 1) :: rat) < of_int m" by simp
    then show ?thesis by (simp only: of_int_less_iff; simp?)
  qed
  have y0: "0 \<le> y" using m0 by (simp add: y_def)
  have e971: "e - 1 \<le> 1023" using k2 by (simp add: e_def)
  have "y \<le> \<bar>x\<bar> + 2 powi (e - 1)" using d by linarith
  also have "\<dots> < 2 powi 1023 + 2 powi (e - 1)" using hi by simp
  also have "\<dots> \<le> 2 powi 1023 + 2 powi 1023"
    using e971 by (intro add_left_mono power_int_increasing) simp_all
  also have "\<dots> = 2 powi 1024" by simp
  finally have ylt: "y < 2 powi 1024" .
  have ym: "y = 0 \<longleftrightarrow> m = 0" by (simp add: y_def)
  have v: "val (f64_round x) = (if x < 0 then - y else y) \<and> \<not> is_nan (f64_round x) \<and> \<not> is_inf (f64_round x)"
    using False ylt ym unfolding f64_round_def e_def[symmetric] k_def[symmetric] Let_def m_def[symmetric] y_def[symmetric]
    by (auto simp add: not_le)
  have "\<bar>val (f64_round x) - x\<bar> = \<bar>y - \<bar>x\<bar>\<bar>"
    using v by (cases "x < 0") (simp_all add: abs_if)
  then show ?thesis using v d h by (simp add: near_def)
qed

lemma uro_pos: "0 < uro" and eta_pos: "0 < eta"
  by (simp_all add: uro_def eta_def)

lemma near_weaken: "near a x d \<Longrightarrow> d \<le> d' \<Longrightarrow> near a x d'"
  by (auto simp: near_def)

lemma near_finite: "near a x d \<Longrightarrow> \<not> is_nan a \<and> \<not> is_inf a"
  by (simp add: near_def)

lemma near_val: "near a x d \<Longrightarrow> \<bar>val a - x\<bar> \<le> d"
  by (simp add: near_def)

lemma is_zero_val: "\<not> is_nan a \<Longrightarrow> \<not> is_inf a \<Longrightarrow> is_zero a \<longleftrightarrow> val a = 0"
  by (cases a) auto

lemma val_signed_zero [simp]: "val (signed_zero s) = 0"
  and nan_signed_zero [simp]: "\<not> is_nan (signed_zero s)"
  and inf_signed_zero [simp]: "\<not> is_inf (signed_zero s)"
  by (simp_all add: signed_zero_def)

lemma fmul_near:
  assumes "\<not> is_nan a" "\<not> is_inf a" "\<not> is_nan b" "\<not> is_inf b"
    and "\<bar>val a * val b\<bar> < 2 powi 1023"
  shows "near (fmul a b) (val a * val b) (\<bar>val a * val b\<bar> * uro + eta)"
proof (cases "is_zero a \<or> is_zero b")
  case True
  then have z: "val a * val b = 0" using assms(1-4) by (auto simp: is_zero_val)
  have "val (fmul a b) = 0 \<and> \<not> is_nan (fmul a b) \<and> \<not> is_inf (fmul a b)"
    using True assms(1-4) by (simp add: fmul_def Let_def)
  then show ?thesis unfolding near_def z using eta_pos by simp
next
  case False
  then have "fmul a b = f64_round (val a * val b)" using assms(1-4) by (simp add: fmul_def)
  then show ?thesis using f64_round_err[OF assms(5)] by simp
qed

lemma fdiv_near:
  assumes "\<not> is_nan a" "\<not> is_inf a" "\<not> is_nan b" "\<not> is_inf b" "val b \<noteq> 0"
    and "\<bar>val a / val b\<bar> < 2 powi 1023"
  shows "near (fdiv a b) (val a / val b) (\<bar>val a / val b\<bar> * uro + eta)"
proof (cases "is_zero a")
  case True
  then have z: "val a / val b = 0" using assms(1-4) by (auto simp: is_zero_val)
  have "\<not> is_zero b" using assms(3-5) by (simp add: is_zero_val)
  then have "val (fdiv a b) = 0 \<and> \<not> is_nan (fdiv a b) \<and> \<not> is_inf (fdiv a b)"
    using True assms(1-4) by (simp add: fdiv_def Let_def)
  then show ?thesis unfolding near_def z using eta_pos by simp
next
  case False
  moreover have "\<not> is_zero b" using assms(3-5) by (simp add: is_zero_val)
  ultimately have "fdiv a b = f64_round (val a / val b)" using assms(1-4) by (simp add: fdiv_def)
  then show ?thesis using f64_round_err[OF assms(6)] by simp
qed

lemma fadd_near:
  assumes "\<not> is_nan a" "\<not> is_inf a" "\<not> is_nan b" "\<not> is_inf b"
    and "\<bar>val a + val b\<bar> < 2 powi 1023"
  shows "near (fadd a b) (val a + val b) (\<bar>val a + val b\<bar> * uro + eta)"
proof (cases "is_zero a \<and> is_zero b")
  case True
  then have z: "val a + val b = 0" using assms(1-4) by (auto simp: is_zero_val)
  have "val (fadd a b) = 0 \<and> \<not> is_nan (fadd a b) \<and> \<not> is_inf (fadd a b)"
    using True assms(1-4) by (simp add: fadd_def)
  then show ?thesis unfolding near_def z using eta_pos by simp
next
  case False
  then have "fadd a b = f64_round (val a + val b)" using assms(1-4) by (auto simp add: fadd_def)
  then show ?thesis using f64_round_err[OF assms(5)] by simp
qed

lemma fneg_props: "is_nan (fneg b) = is_nan b" "is_inf (fneg b) = is_inf b" "val (fneg b) = - val b"
  by (cases b; simp)+

lemma fsub_near:
  assumes "\<not> is_nan a" "\<not> is_inf a" "\<not> is_nan b" "\<not> is_inf b"
    and "\<bar>val a - val b\<bar> < 2 powi 1023"
  shows "near (fsub a b) (val a - val b) (\<bar>val a - val b\<bar> * uro + eta)"
  using fadd_near[of a "fneg b"] assms by (simp add: fsub_def fneg_props)

lemma math_Round_near:
  assumes "\<not> is_nan a" "\<not> is_inf a"
  shows "\<not> is_nan (math_Round a) \<and> \<not> is_inf (math_Round a)
         \<and> (\<exists>n::int. val (math_Round a) = of_int n \<and> \<bar>of_int n - val a\<bar> \<le> 1 / 2)"
proof (cases a)
  case (Fin x)
  define n where "n = \<lfloor>\<bar>x\<bar> + 1 / 2\<rfloor>"
  have b: "of_int n \<le> \<bar>x\<bar> + 1 / 2" "\<bar>x\<bar> + 1 / 2 < of_int n + 1" unfolding n_def by linarith+
  show ?thesis
  proof (cases "n = 0")
    case True
    then have "math_Round a = signed_zero (x < 0)" using Fin by (simp add: math_Round.simps n_def Let_def)
    moreover have "\<bar>of_int 0 - x\<bar> \<le> 1 / 2" using b True by simp
    ultimately show ?thesis using Fin by (intro conjI exI[of _ 0]) simp_all
  next
    case False
    then have r: "math_Round a = Fin (if x < 0 then - of_int n else of_int n)"
      using Fin by (simp add: math_Round.simps n_def Let_def)
    have "\<bar>of_int (if x < 0 then - n else n) - x\<bar> \<le> 1 / 2" using b by (cases "x < 0") (auto simp: abs_if)
    then show ?thesis using r Fin by (intro conjI exI[of _ "if x < 0 then - n else n"]) simp_all
  qed
qed (use assms in \<open>auto intro: exI[of _ 0]\<close>)

lemma math_Round_exact:
  assumes "\<not> is_nan s" "\<not> is_inf s" "\<bar>val s - of_int k\<bar> < 1 / 2" "k \<noteq> 0"
  shows "math_Round s = Fin (of_int k)"
proof -
  have k1: "(1::rat) \<le> \<bar>of_int k\<bar>"
  proof -
    have "1 \<le> \<bar>k\<bar>" using assms(4) by simp
    then have "(of_int 1 :: rat) \<le> of_int \<bar>k\<bar>" by (simp only: of_int_le_iff)
    then show ?thesis by simp
  qed
  then have "val s \<noteq> 0" using assms(3) by auto
  then obtain x where s: "s = Fin x" and x0: "x \<noteq> 0" using assms(1,2) by (cases s) auto
  have d: "\<bar>x - of_int k\<bar> < 1 / 2" using assms(3) s by simp
  have sg: "x < 0 \<longleftrightarrow> k < 0"
  proof
    assume "x < 0"
    then have "(of_int k :: rat) < 1 / 2" using d by linarith
    then have "(of_int k :: rat) < of_int 1" by linarith
    then have "k < 1" by (simp only: of_int_less_iff)
    then show "k < 0" using assms(4) by simp
  next
    assume "k < 0"
    then have "k \<le> - 1" by simp
    then have "(of_int k :: rat) \<le> of_int (- 1)" by (simp only: of_int_le_iff)
    then have "(of_int k :: rat) \<le> - 1" by simp
    then show "x < 0" using d by linarith
  qed
  show ?thesis unfolding s
  proof (rule math_Round_eqI[where n = "\<bar>k\<bar>"])
    have "\<bar>\<bar>of_int k\<bar> - \<bar>x\<bar>\<bar> \<le> \<bar>of_int k - x\<bar>" by (rule abs_triangle_ineq3)
    then have t: "\<bar>of_int \<bar>k\<bar> - \<bar>x\<bar>\<bar> < 1 / 2" using d by (simp add: abs_minus_commute)
    show "of_int \<bar>k\<bar> \<le> \<bar>x\<bar> + 1 / 2" using t by linarith
    show "\<bar>x\<bar> + 1 / 2 < of_int \<bar>k\<bar> + 1" using t by linarith
    show "Fin (of_int k) = (if \<bar>k\<bar> = 0 then signed_zero (x < 0) else Fin (if x < 0 then - of_int \<bar>k\<bar> else of_int \<bar>k\<bar>))"
      using assms(4) sg by (cases "k < 0") simp_all
  qed
qed

lemma err_step:
  fixes X \<rho> \<alpha> \<beta> s d p e :: rat
  assumes d: "\<bar>d\<bar> \<le> X * \<rho> + \<alpha>"
    and p: "\<bar>p\<bar> \<le> (X + \<beta> + X * \<rho> + \<alpha>) * s"
    and e: "\<bar>e\<bar> \<le> \<bar>p\<bar> * uro + eta"
    and s: "0 \<le> s" "s \<le> smax"
    and nn: "0 \<le> X" "0 \<le> \<rho>" "0 \<le> \<alpha>" "0 \<le> \<beta>"
    and r: "\<rho> + uro + \<rho> * uro \<le> \<rho>'"
    and a: "smax * (\<alpha> + (\<alpha> + \<beta>) * uro) + eta \<le> \<alpha>'"
  shows "\<bar>d\<bar> * s + \<bar>e\<bar> \<le> (X * s) * \<rho>' + \<alpha>'"
proof -
  have u: "0 \<le> uro" using uro_pos by simp
  have 1: "\<bar>d\<bar> * s \<le> (X * \<rho> + \<alpha>) * s" using d s(1) by (rule mult_right_mono)
  have 2: "\<bar>p\<bar> * uro \<le> (X + \<beta> + X * \<rho> + \<alpha>) * s * uro" using p u by (rule mult_right_mono)
  have 3: "(X * \<rho> + \<alpha>) * s + (X + \<beta> + X * \<rho> + \<alpha>) * s * uro + eta
           = X * s * (\<rho> + uro + \<rho> * uro) + s * (\<alpha> + (\<alpha> + \<beta>) * uro) + eta"
    by (simp add: algebra_simps)
  have 4: "X * s * (\<rho> + uro + \<rho> * uro) \<le> X * s * \<rho>'"
    using r by (rule mult_left_mono) (simp add: nn s)
  have "0 \<le> \<alpha> + (\<alpha> + \<beta>) * uro" using nn u by simp
  then have 5: "s * (\<alpha> + (\<alpha> + \<beta>) * uro) \<le> smax * (\<alpha> + (\<alpha> + \<beta>) * uro)"
    using s(2) by (intro mult_right_mono)
  show ?thesis using 1 2 3 4 5 e a by linarith
qed

lemma near_start: "\<not> is_nan v \<Longrightarrow> \<not> is_inf v \<Longrightarrow> near v (val v) (\<bar>val v\<bar> * 0 + 0)"
  by (simp add: near_def)

lemma near_fmul_const:
  assumes n: "near a x (X * \<rho> + \<alpha>)" and xb: "\<bar>x\<bar> \<le> X + \<beta>"
    and c: "0 < c" "c \<le> cmax"
    and nn: "0 \<le> X" "0 \<le> \<rho>" "0 \<le> \<alpha>" "0 \<le> \<beta>"
    and X: "X \<le> Xmax"
    and ovf: "(Xmax + \<beta> + Xmax * \<rho> + \<alpha>) * cmax < 2 powi 1023"
    and r: "\<rho> + uro + \<rho> * uro \<le> \<rho>'"
    and a: "cmax * (\<alpha> + (\<alpha> + \<beta>) * uro) + eta \<le> \<alpha>'"
  shows "near (fmul a (Fin c)) (x * c) ((X * c) * \<rho>' + \<alpha>')"
proof -
  define d where "d = val a - x"
  define p where "p = val a * c"
  have fa: "\<not> is_nan a" "\<not> is_inf a" and d: "\<bar>d\<bar> \<le> X * \<rho> + \<alpha>"
    using n by (simp_all add: near_def d_def)
  have "\<bar>val a\<bar> \<le> \<bar>x\<bar> + \<bar>d\<bar>" unfolding d_def by linarith
  then have va: "\<bar>val a\<bar> \<le> X + \<beta> + X * \<rho> + \<alpha>" using xb d by linarith
  have "\<bar>p\<bar> = \<bar>val a\<bar> * c" using c by (simp add: p_def abs_mult)
  also have "\<dots> \<le> (X + \<beta> + X * \<rho> + \<alpha>) * c" using va c by (intro mult_right_mono) simp_all
  finally have p: "\<bar>p\<bar> \<le> (X + \<beta> + X * \<rho> + \<alpha>) * c" .
  have "X + \<beta> + X * \<rho> + \<alpha> \<le> Xmax + \<beta> + Xmax * \<rho> + \<alpha>"
    using X nn mult_right_mono[OF X nn(2)] by linarith
  moreover have "0 \<le> X + \<beta> + X * \<rho> + \<alpha>" using nn by simp
  ultimately have "(X + \<beta> + X * \<rho> + \<alpha>) * c \<le> (Xmax + \<beta> + Xmax * \<rho> + \<alpha>) * cmax"
    using c by (intro mult_mono) simp_all
  then have plt: "\<bar>val a * val (Fin c)\<bar> < 2 powi 1023" using p ovf by (simp add: p_def)
  have nf: "near (fmul a (Fin c)) (val a * val (Fin c)) (\<bar>val a * val (Fin c)\<bar> * uro + eta)"
    using fa plt by (intro fmul_near) simp_all
  define e where "e = val (fmul a (Fin c)) - p"
  have e: "\<bar>e\<bar> \<le> \<bar>p\<bar> * uro + eta" using nf by (simp add: near_def e_def p_def)
  have "val (fmul a (Fin c)) - x * c = d * c + e" by (simp add: e_def p_def d_def algebra_simps)
  then have "\<bar>val (fmul a (Fin c)) - x * c\<bar> \<le> \<bar>d\<bar> * c + \<bar>e\<bar>"
    using c by (simp add: abs_mult[symmetric]) (metis abs_mult abs_of_pos abs_triangle_ineq c(1))
  also have "\<dots> \<le> (X * c) * \<rho>' + \<alpha>'"
    using d p e c nn r a by (intro err_step[where \<beta> = \<beta> and p = p and smax = cmax]) simp_all
  finally show ?thesis using nf by (simp add: near_def)
qed

lemma near_fdiv_const:
  assumes n: "near a x (X * \<rho> + \<alpha>)" and xb: "\<bar>x\<bar> \<le> X + \<beta>"
    and c: "0 < cmin" "cmin \<le> c"
    and nn: "0 \<le> X" "0 \<le> \<rho>" "0 \<le> \<alpha>" "0 \<le> \<beta>"
    and X: "X \<le> Xmax"
    and ovf: "(Xmax + \<beta> + Xmax * \<rho> + \<alpha>) / cmin < 2 powi 1023"
    and r: "\<rho> + uro + \<rho> * uro \<le> \<rho>'"
    and a: "(\<alpha> + (\<alpha> + \<beta>) * uro) / cmin + eta \<le> \<alpha>'"
  shows "near (fdiv a (Fin c)) (x / c) ((X / c) * \<rho>' + \<alpha>')"
proof -
  define s where "s = 1 / c"
  define d where "d = val a - x"
  define p where "p = val a / c"
  have cpos: "0 < c" using c by linarith
  have s: "0 \<le> s" "s \<le> 1 / cmin" using c cpos by (simp_all add: s_def frac_le)
  have fa: "\<not> is_nan a" "\<not> is_inf a" and d: "\<bar>d\<bar> \<le> X * \<rho> + \<alpha>"
    using n by (simp_all add: near_def d_def)
  have "\<bar>val a\<bar> \<le> \<bar>x\<bar> + \<bar>d\<bar>" unfolding d_def by linarith
  then have va: "\<bar>val a\<bar> \<le> X + \<beta> + X * \<rho> + \<alpha>" using xb d by linarith
  have "\<bar>p\<bar> = \<bar>val a\<bar> * s" using cpos by (simp add: p_def s_def abs_mult)
  also have "\<dots> \<le> (X + \<beta> + X * \<rho> + \<alpha>) * s" using va s by (intro mult_right_mono) simp_all
  finally have p: "\<bar>p\<bar> \<le> (X + \<beta> + X * \<rho> + \<alpha>) * s" .
  have "X + \<beta> + X * \<rho> + \<alpha> \<le> Xmax + \<beta> + Xmax * \<rho> + \<alpha>"
    using X nn mult_right_mono[OF X nn(2)] by linarith
  moreover have "0 \<le> X + \<beta> + X * \<rho> + \<alpha>" using nn by simp
  ultimately have "(X + \<beta> + X * \<rho> + \<alpha>) * s \<le> (Xmax + \<beta> + Xmax * \<rho> + \<alpha>) * (1 / cmin)"
    using s by (intro mult_mono) simp_all
  then have plt: "\<bar>val a / val (Fin c)\<bar> < 2 powi 1023" using p ovf by (simp add: p_def)
  have nf: "near (fdiv a (Fin c)) (val a / val (Fin c)) (\<bar>val a / val (Fin c)\<bar> * uro + eta)"
    using fa plt cpos by (intro fdiv_near) simp_all
  define e where "e = val (fdiv a (Fin c)) - p"
  have e: "\<bar>e\<bar> \<le> \<bar>p\<bar> * uro + eta" using nf by (simp add: near_def e_def p_def)
  have "val (fdiv a (Fin c)) - x / c = d * s + e" by (simp add: e_def p_def d_def s_def algebra_simps diff_divide_distrib)
  then have "\<bar>val (fdiv a (Fin c)) - x / c\<bar> \<le> \<bar>d\<bar> * s + \<bar>e\<bar>"
    using s(1) by (metis abs_mult abs_of_nonneg abs_triangle_ineq)
  also have "\<dots> \<le> (X * s) * \<rho>' + \<alpha>'"
    using d p e s nn r a by (intro err_step[where \<beta> = \<beta> and p = p and smax = "1 / cmin"]) simp_all
  finally show ?thesis using nf by (simp add: near_def s_def)
qed

lemma near_fdiv_tight:
  assumes n: "near a x (X * \<rho> + \<alpha>)" and xb: "\<bar>x\<bar> \<le> X + \<beta>"
    and c: "0 < cmin" "cmin \<le> c"
    and nn: "0 \<le> X" "0 \<le> \<rho>" "0 \<le> \<alpha>" "0 \<le> \<beta>"
    and Q: "X / c \<le> Qmax"
    and ovf: "Qmax + Qmax * \<rho> + (\<beta> + \<alpha>) / cmin < 2 powi 1023"
    and r: "\<rho> + uro + \<rho> * uro \<le> \<rho>'"
    and a: "(\<alpha> + (\<alpha> + \<beta>) * uro) / cmin + eta \<le> \<alpha>'"
  shows "near (fdiv a (Fin c)) (x / c) ((X / c) * \<rho>' + \<alpha>')"
proof -
  define s where "s = 1 / c"
  define d where "d = val a - x"
  define p where "p = val a / c"
  have cpos: "0 < c" using c by linarith
  have s: "0 \<le> s" "s \<le> 1 / cmin" using c cpos by (simp_all add: s_def frac_le)
  have fa: "\<not> is_nan a" "\<not> is_inf a" and d: "\<bar>d\<bar> \<le> X * \<rho> + \<alpha>"
    using n by (simp_all add: near_def d_def)
  have "\<bar>val a\<bar> \<le> \<bar>x\<bar> + \<bar>d\<bar>" unfolding d_def by linarith
  then have va: "\<bar>val a\<bar> \<le> X + \<beta> + X * \<rho> + \<alpha>" using xb d by linarith
  have "\<bar>p\<bar> = \<bar>val a\<bar> * s" using cpos by (simp add: p_def s_def abs_mult)
  also have "\<dots> \<le> (X + \<beta> + X * \<rho> + \<alpha>) * s" using va s by (intro mult_right_mono) simp_all
  finally have p: "\<bar>p\<bar> \<le> (X + \<beta> + X * \<rho> + \<alpha>) * s" .
  have Xs: "X * s \<le> Qmax" using Q by (simp add: s_def)
  have "(X + \<beta> + X * \<rho> + \<alpha>) * s = X * s + X * s * \<rho> + (\<beta> + \<alpha>) * s"
    by (simp add: algebra_simps)
  also have "\<dots> \<le> Qmax + Qmax * \<rho> + (\<beta> + \<alpha>) * (1 / cmin)"
    using Xs mult_right_mono[OF Xs nn(2)] mult_left_mono[OF s(2), of "\<beta> + \<alpha>"] nn by linarith
  finally have plt: "\<bar>val a / val (Fin c)\<bar> < 2 powi 1023" using p ovf by (simp add: p_def)
  have nf: "near (fdiv a (Fin c)) (val a / val (Fin c)) (\<bar>val a / val (Fin c)\<bar> * uro + eta)"
    using fa plt cpos by (intro fdiv_near) simp_all
  define e where "e = val (fdiv a (Fin c)) - p"
  have e: "\<bar>e\<bar> \<le> \<bar>p\<bar> * uro + eta" using nf by (simp add: near_def e_def p_def)
  have "val (fdiv a (Fin c)) - x / c = d * s + e" by (simp add: e_def p_def d_def s_def algebra_simps diff_divide_distrib)
  then have "\<bar>val (fdiv a (Fin c)) - x / c\<bar> \<le> \<bar>d\<bar> * s + \<bar>e\<bar>"
    using s(1) by (metis abs_mult abs_of_nonneg abs_triangle_ineq)
  also have "\<dots> \<le> (X * s) * \<rho>' + \<alpha>'"
    using d p e s nn r a by (intro err_step[where \<beta> = \<beta> and p = p and smax = "1 / cmin"]) simp_all
  finally show ?thesis using nf by (simp add: near_def s_def)
qed

lemma near_fadd_const:
  assumes n: "near a x (X * \<rho> + \<alpha>)" and b: "\<not> is_nan b" "\<not> is_inf b"
    and xb: "\<bar>x + val b\<bar> \<le> X + \<beta>"
    and nn: "0 \<le> X" "0 \<le> \<rho>" "0 \<le> \<alpha>" "0 \<le> \<beta>"
    and X: "X \<le> Xmax"
    and ovf: "Xmax + \<beta> + Xmax * \<rho> + \<alpha> < 2 powi 1023"
    and r: "\<rho> + uro + \<rho> * uro \<le> \<rho>'"
    and a: "\<alpha> + (\<alpha> + \<beta>) * uro + eta \<le> \<alpha>'"
  shows "near (fadd a b) (x + val b) (X * \<rho>' + \<alpha>')"
proof -
  define d where "d = val a - x"
  define p where "p = val a + val b"
  have fa: "\<not> is_nan a" "\<not> is_inf a" and d: "\<bar>d\<bar> \<le> X * \<rho> + \<alpha>"
    using n by (simp_all add: near_def d_def)
  have "\<bar>p\<bar> \<le> \<bar>x + val b\<bar> + \<bar>d\<bar>" unfolding d_def p_def by linarith
  then have p0: "\<bar>p\<bar> \<le> X + \<beta> + X * \<rho> + \<alpha>" using xb d by linarith
  then have p: "\<bar>p\<bar> \<le> (X + \<beta> + X * \<rho> + \<alpha>) * 1" by simp
  have "X + \<beta> + X * \<rho> + \<alpha> \<le> Xmax + \<beta> + Xmax * \<rho> + \<alpha>"
    using X nn mult_right_mono[OF X nn(2)] by linarith
  then have plt: "\<bar>val a + val b\<bar> < 2 powi 1023" using p0 ovf by (simp add: p_def)
  have nf: "near (fadd a b) (val a + val b) (\<bar>val a + val b\<bar> * uro + eta)"
    using fa b plt by (intro fadd_near) simp_all
  define e where "e = val (fadd a b) - p"
  have e: "\<bar>e\<bar> \<le> \<bar>p\<bar> * uro + eta" using nf by (simp add: near_def e_def p_def)
  have "val (fadd a b) - (x + val b) = d + e" by (simp add: e_def p_def d_def)
  then have "\<bar>val (fadd a b) - (x + val b)\<bar> \<le> \<bar>d\<bar> * 1 + \<bar>e\<bar>" by simp
  also have "\<dots> \<le> (X * 1) * \<rho>' + \<alpha>'"
    using d p e nn r a by (intro err_step[where \<beta> = \<beta> and p = p and smax = 1]) simp_all
  finally show ?thesis using nf by (simp add: near_def)
qed

lemma near_fsub_const:
  assumes n: "near a x (X * \<rho> + \<alpha>)" and b: "\<not> is_nan b" "\<not> is_inf b"
    and xb: "\<bar>x - val b\<bar> \<le> X + \<beta>"
    and nn: "0 \<le> X" "0 \<le> \<rho>" "0 \<le> \<alpha>" "0 \<le> \<beta>"
    and X: "X \<le> Xmax"
    and ovf: "Xmax + \<beta> + Xmax * \<rho> + \<alpha> < 2 powi 1023"
    and r: "\<rho> + uro + \<rho> * uro \<le> \<rho>'"
    and a: "\<alpha> + (\<alpha> + \<beta>) * uro + eta \<le> \<alpha>'"
  shows "near (fsub a b) (x - val b) (X * \<rho>' + \<alpha>')"
  using near_fadd_const[OF n _ _ _ nn X ovf r a, of "fneg b"] b xb
  by (simp add: fsub_def fneg_props)

lemma near_math_Round:
  assumes "near s y d"
  shows "near (math_Round s) y (d + 1 / 2)"
proof -
  have f: "\<not> is_nan s" "\<not> is_inf s" and d: "\<bar>val s - y\<bar> \<le> d" using assms by (simp_all add: near_def)
  from math_Round_near[OF f] obtain n :: int where
    r: "\<not> is_nan (math_Round s)" "\<not> is_inf (math_Round s)" "val (math_Round s) = of_int n"
      "\<bar>of_int n - val s\<bar> \<le> 1 / 2" by blast
  have "\<bar>val (math_Round s) - y\<bar> \<le> d + 1 / 2" using r(3,4) d by linarith
  then show ?thesis using r by (simp add: near_def)
qed

section \<open>Accuracy of a conversion\<close>

lemma ratio_scaled:
  fixes fA fB :: rat
  assumes v: "\<not> is_nan v" "\<not> is_inf v" and V: "\<bar>val v\<bar> \<le> 2 ^ 981"
    and W: "\<bar>val v\<bar> * fA / fB \<le> 2 ^ 981"
    and fA: "2 powi (- 30) \<le> fA" "fA \<le> 2 powi 40"
    and fB: "2 powi (- 30) \<le> fB" "fB \<le> 2 powi 40"
  shows "near (fmul (fdiv (fmul v (Fin fA)) (Fin fB)) (Fin (10 ^ 12)))
              (val v * fA / fB * 10 ^ 12)
              (\<bar>val v\<bar> * fA / fB * 10 ^ 12 * (3003 / 1000 * uro) + 2 powi 72 * eta)"
proof -
  have pA: "0 < fA" and pB: "0 < fB" using fA(1) fB(1) by simp_all
  have 0: "near v (val v) (\<bar>val v\<bar> * 0 + 0)" using v by (rule near_start)
  have 1: "near (fmul v (Fin fA)) (val v * fA) (\<bar>val v\<bar> * fA * (1001 / 1000 * uro) + eta)"
    by (rule near_fmul_const[OF 0, where \<beta> = 0 and cmax = "2 powi 40" and Xmax = "2 ^ 981"])
       (use V fA pA in \<open>simp_all add: uro_def eta_def\<close>)
  have 2: "near (fdiv (fmul v (Fin fA)) (Fin fB)) (val v * fA / fB)
             (\<bar>val v\<bar> * fA / fB * (2002 / 1000 * uro) + 2 powi 31 * eta)"
    by (rule near_fdiv_tight[OF 1, where \<beta> = 0 and cmin = "2 powi (- 30)" and Qmax = "2 ^ 981"])
       (use W fB pA in \<open>simp_all add: uro_def eta_def abs_mult\<close>)
  have 3: "near (fmul (fdiv (fmul v (Fin fA)) (Fin fB)) (Fin (10 ^ 12))) (val v * fA / fB * 10 ^ 12)
             (\<bar>val v\<bar> * fA / fB * 10 ^ 12 * (3003 / 1000 * uro) + 2 powi 72 * eta)"
    by (rule near_fmul_const[OF 2, where \<beta> = 0 and cmax = "10 ^ 12" and Xmax = "2 ^ 981"])
       (use W pA pB in \<open>simp_all add: uro_def eta_def abs_mult\<close>)
  show ?thesis by (rule 3)
qed

lemma round12_unfold: "round12 r = fdiv (math_Round (fmul r (Fin (10 ^ 12)))) (Fin (10 ^ 12))"
  by (simp add: round12_def Let_def math_Pow_10_12)

lemma round12_exact:
  assumes "\<not> is_nan (fmul r (Fin (10 ^ 12)))" "\<not> is_inf (fmul r (Fin (10 ^ 12)))"
    and "\<bar>val (fmul r (Fin (10 ^ 12))) - of_int k\<bar> < 1 / 2" "k \<noteq> 0"
  shows "round12 r = lit (of_int k / 10 ^ 12)"
proof -
  have "math_Round (fmul r (Fin (10 ^ 12))) = Fin (of_int k)"
    using assms by (rule math_Round_exact)
  then have "round12 r = fdiv (Fin (of_int k)) (Fin (10 ^ 12))" by (simp add: round12_unfold)
  also have "\<dots> = f64_round (of_int k / 10 ^ 12)" using assms(4) by (simp add: fdiv_Fin)
  finally show ?thesis by (simp add: lit_def)
qed

lemma round12_zero: "round12 (Fin 0) = Fin 0"
proof -
  have "fmul (Fin 0) (Fin (10 ^ 12)) = Fin 0" by (simp add: fmul_def signed_zero_def)
  moreover have "math_Round (Fin 0) = Fin 0"
    by (rule math_Round_eqI[where n=0]; simp add: signed_zero_def)
  moreover have "fdiv (Fin 0) (Fin (10 ^ 12)) = Fin 0" by (simp add: fdiv_def signed_zero_def)
  ultimately show ?thesis by (simp add: round12_unfold)
qed

lemma lit_grid_near:
  assumes "\<bar>k\<bar> \<le> 5 * 10 ^ 14"
  shows "near (lit (of_int k / 10 ^ 12)) (of_int k / 10 ^ 12) (\<bar>of_int k\<bar> / 10 ^ 12 * uro + eta)"
proof -
  have "(of_int \<bar>k\<bar> :: rat) \<le> of_int (5 * 10 ^ 14)" using assms by (simp only: of_int_le_iff)
  then have K: "\<bar>of_int k :: rat\<bar> \<le> 5 * 10 ^ 14" by simp
  then have "\<bar>of_int k / 10 ^ 12 :: rat\<bar> < 2 powi 1023" by simp
  from f64_round_err[OF this] show ?thesis by (simp add: lit_def)
qed

lemma ratio_identity:
  fixes f :: rat
  assumes f: "2 powi (- 30) \<le> f" "f \<le> 2 powi 40" and k: "\<bar>k\<bar> \<le> 5 * 10 ^ 14"
  shows "round12 (fdiv (fmul (lit (of_int k / 10 ^ 12)) (Fin f)) (Fin f)) = lit (of_int k / 10 ^ 12)"
proof (cases "k = 0")
  case True
  have pf: "0 < f" using f(1) by simp
  then have "fmul (Fin 0) (Fin f) = Fin 0" by (simp add: fmul_def signed_zero_def)
  moreover have "fdiv (Fin 0) (Fin f) = Fin 0" using pf by (simp add: fdiv_def signed_zero_def)
  ultimately show ?thesis using True by (simp add: round12_zero)
next
  case False
  define v where "v = lit (of_int k / 10 ^ 12)"
  define K :: rat where "K = \<bar>of_int k\<bar>"
  have pf: "0 < f" using f(1) by simp
  have "(of_int \<bar>k\<bar> :: rat) \<le> of_int (5 * 10 ^ 14)" using k by (simp only: of_int_le_iff)
  then have K: "K \<le> 5 * 10 ^ 14" "0 \<le> K" by (simp_all add: K_def)
  have nv: "near v (of_int k / 10 ^ 12) (K / 10 ^ 12 * uro + eta)"
    unfolding v_def K_def using k by (rule lit_grid_near)
  then have fv: "\<not> is_nan v" "\<not> is_inf v" and dv: "\<bar>val v - of_int k / 10 ^ 12\<bar> \<le> K / 10 ^ 12 * uro + eta"
    by (simp_all add: near_def)
  have av: "\<bar>val v\<bar> \<le> K / 10 ^ 12 + (K / 10 ^ 12 * uro + eta)"
  proof -
    have "\<bar>val v\<bar> \<le> \<bar>of_int k / 10 ^ 12\<bar> + \<bar>val v - of_int k / 10 ^ 12\<bar>" by linarith
    then show ?thesis using dv by (simp add: K_def)
  qed
  have V: "\<bar>val v\<bar> \<le> 2 ^ 981" using av K by (simp add: uro_def eta_def)
  have W: "\<bar>val v\<bar> * f / f \<le> 2 ^ 981" using V pf by simp
  let ?s = "fmul (fdiv (fmul v (Fin f)) (Fin f)) (Fin (10 ^ 12))"
  have "near ?s (val v * f / f * 10 ^ 12)
          (\<bar>val v\<bar> * f / f * 10 ^ 12 * (3003 / 1000 * uro) + 2 powi 72 * eta)"
    using fv V W f f by (rule ratio_scaled)
  then have ns: "near ?s (val v * 10 ^ 12) (\<bar>val v\<bar> * 10 ^ 12 * (3003 / 1000 * uro) + 2 powi 72 * eta)"
    using pf by simp
  then have fs: "\<not> is_nan ?s" "\<not> is_inf ?s"
    and ds: "\<bar>val ?s - val v * 10 ^ 12\<bar> \<le> \<bar>val v\<bar> * 10 ^ 12 * (3003 / 1000 * uro) + 2 powi 72 * eta"
    by (simp_all add: near_def)
  have d2: "\<bar>val v * 10 ^ 12 - of_int k\<bar> \<le> K * uro + 10 ^ 12 * eta"
  proof -
    have "\<bar>val v * 10 ^ 12 - of_int k\<bar> = \<bar>(val v - of_int k / 10 ^ 12) * 10 ^ 12\<bar>"
      by (simp add: algebra_simps)
    also have "\<dots> = \<bar>val v - of_int k / 10 ^ 12\<bar> * 10 ^ 12"
      by (simp only: abs_mult) simp
    also have "\<dots> \<le> (K / 10 ^ 12 * uro + eta) * 10 ^ 12" using dv by (intro mult_right_mono) simp_all
    finally show ?thesis by (simp add: algebra_simps)
  qed
  have a2: "\<bar>val v\<bar> * 10 ^ 12 \<le> K + K * uro + 10 ^ 12 * eta"
  proof -
    have "\<bar>val v\<bar> * 10 ^ 12 \<le> (K / 10 ^ 12 + (K / 10 ^ 12 * uro + eta)) * 10 ^ 12"
      using av by (intro mult_right_mono) simp_all
    then show ?thesis by (simp add: algebra_simps)
  qed
  have "\<bar>val v\<bar> * 10 ^ 12 * (3003 / 1000 * uro) \<le> (K + K * uro + 10 ^ 12 * eta) * (3003 / 1000 * uro)"
    using a2 by (intro mult_right_mono) (simp_all add: uro_def)
  then have "\<bar>val ?s - of_int k\<bar> \<le> (K + K * uro + 10 ^ 12 * eta) * (3003 / 1000 * uro)
                + 2 powi 72 * eta + K * uro + 10 ^ 12 * eta"
    using ds d2 by linarith
  also have "\<dots> < 1 / 2" using K by (simp add: uro_def eta_def algebra_simps)
  finally have "\<bar>val ?s - of_int k\<bar> < 1 / 2" .
  with fs have "round12 (fdiv (fmul v (Fin f)) (Fin f)) = lit (of_int k / 10 ^ 12)"
    using False by (intro round12_exact)
  then show ?thesis by (simp add: v_def)
qed

lemma temp_scaled:
  fixes fA fB oA oB D :: rat
  assumes v: "\<not> is_nan v" "\<not> is_inf v" and V: "\<bar>val v\<bar> \<le> 2 ^ 982"
    and fA: "1 / 2 \<le> fA" "fA \<le> 1" and fB: "1 / 2 \<le> fB" "fB \<le> 1"
    and oA: "0 \<le> oA" "oA \<le> 274" and oB: "0 \<le> oB" "oB \<le> 274"
    and D: "\<bar>oA - oB\<bar> \<le> D" "D \<le> 274"
  shows "near (fmul (fdiv (fsub (fadd (fmul v (Fin fA)) (Fin oA)) (Fin oB)) (Fin fB)) (Fin (10 ^ 12)))
              ((val v * fA + oA - oB) / fB * 10 ^ 12)
              (\<bar>val v\<bar> * fA / fB * 10 ^ 12 * (5005 / 1000 * uro)
                 + 10 ^ 12 * (552 * uro + 10 * D * uro))"
proof -
  have pA: "0 < fA" and pB: "0 < fB" using fA(1) fB(1) by simp_all
  have D0: "0 \<le> D" using D(1) by linarith
  let ?X = "\<bar>val v\<bar> * fA"
  have X: "?X \<le> 2 ^ 982"
  proof -
    have "?X \<le> 2 ^ 982 * 1" using V fA(2) pA by (intro mult_mono) simp_all
    then show ?thesis by simp
  qed
  have X0: "0 \<le> ?X" using pA by simp
  have 0: "near v (val v) (\<bar>val v\<bar> * 0 + 0)" using v by (rule near_start)
  have 1: "near (fmul v (Fin fA)) (val v * fA) (?X * (1001 / 1000 * uro) + eta)"
    by (rule near_fmul_const[OF 0, where \<beta> = 0 and cmax = 1 and Xmax = "2 ^ 982"])
       (use V fA pA in \<open>simp_all add: uro_def eta_def\<close>)
  have b2: "\<bar>val v * fA + val (Fin oA)\<bar> \<le> ?X + 274"
  proof -
    have "\<bar>val v * fA + oA\<bar> \<le> \<bar>val v * fA\<bar> + \<bar>oA\<bar>" by (rule abs_triangle_ineq)
    then show ?thesis using oA pA by (simp add: abs_mult)
  qed
  have "near (fadd (fmul v (Fin fA)) (Fin oA)) (val v * fA + val (Fin oA))
          (?X * (2002 / 1000 * uro) + (274 * uro + 3 * eta))"
    by (rule near_fadd_const[OF 1 _ _ b2, where Xmax = "2 ^ 982"])
       (use X X0 in \<open>simp_all add: uro_def eta_def\<close>)
  then have 2: "near (fadd (fmul v (Fin fA)) (Fin oA)) (val v * fA + oA)
          (?X * (2002 / 1000 * uro) + (274 * uro + 3 * eta))" by simp
  have b3: "\<bar>val v * fA + oA - val (Fin oB)\<bar> \<le> ?X + D"
  proof -
    have "\<bar>val v * fA + (oA - oB)\<bar> \<le> \<bar>val v * fA\<bar> + \<bar>oA - oB\<bar>" by (rule abs_triangle_ineq)
    then show ?thesis using pA D(1) by (simp add: abs_mult)
  qed
  have a3: "274 * uro + 3 * eta + (274 * uro + 3 * eta + D) * uro + eta \<le> 275 * uro + 2 * D * uro"
  proof -
    have "D * uro \<le> 2 * D * uro" using D0 uro_pos by simp
    moreover have "274 * uro + 3 * eta + (274 * uro + 3 * eta) * uro + eta \<le> 275 * uro"
      by (simp add: uro_def eta_def)
    ultimately show ?thesis by (simp add: algebra_simps)
  qed
  have o3: "2 ^ 982 + D + 2 ^ 982 * (2002 / 1000 * uro) + (274 * uro + 3 * eta) < 2 powi 1023"
  proof -
    have "2 ^ 982 + 274 + 2 ^ 982 * (2002 / 1000 * uro) + (274 * uro + 3 * eta) < 2 powi 1023"
      by (simp add: uro_def eta_def)
    then show ?thesis using D(2) by linarith
  qed
  have n3: "0 \<le> 274 * uro + 3 * eta" "0 \<le> 2002 / 1000 * uro"
    "2002 / 1000 * uro + uro + 2002 / 1000 * uro * uro \<le> 3003 / 1000 * uro"
    by (simp_all add: uro_def eta_def)
  have "near (fsub (fadd (fmul v (Fin fA)) (Fin oA)) (Fin oB)) (val v * fA + oA - val (Fin oB))
          (?X * (3003 / 1000 * uro) + (275 * uro + 2 * D * uro))"
    by (rule near_fsub_const[OF 2 _ _ b3 X0 n3(2) n3(1) D0 X o3 n3(3) a3]) simp_all
  then have 3: "near (fsub (fadd (fmul v (Fin fA)) (Fin oA)) (Fin oB)) (val v * fA + oA - oB)
          (?X * (3003 / 1000 * uro) + (275 * uro + 2 * D * uro))" by simp
  have b4: "\<bar>val v * fA + oA - oB\<bar> \<le> ?X + D" using b3 by simp
  have n4: "0 \<le> 275 * uro + 2 * D * uro" "0 \<le> 3003 / 1000 * uro"
    "3003 / 1000 * uro + uro + 3003 / 1000 * uro * uro \<le> 4004 / 1000 * uro"
    using D0 by (simp_all add: uro_def eta_def)
  have a4: "(275 * uro + 2 * D * uro + (275 * uro + 2 * D * uro + D) * uro) / (1 / 2) + eta
              \<le> 551 * uro + 7 * D * uro"
  proof -
    have "(2 * D * uro + (2 * D * uro + D) * uro) * 2 \<le> 7 * D * uro"
    proof -
      have "(2 * D * uro + (2 * D * uro + D) * uro) * 2 = D * (uro * (6 + 4 * uro))"
        by (simp add: algebra_simps)
      also have "\<dots> \<le> D * (uro * 7)"
        using D0 by (intro mult_left_mono) (simp_all add: uro_def)
      finally show ?thesis by (simp add: algebra_simps)
    qed
    moreover have "(275 * uro + 275 * uro * uro) * 2 + eta \<le> 551 * uro"
      by (simp add: uro_def eta_def)
    ultimately show ?thesis by (simp add: algebra_simps)
  qed
  have o4: "(2 ^ 982 + D + 2 ^ 982 * (3003 / 1000 * uro) + (275 * uro + 2 * D * uro)) / (1 / 2) < 2 powi 1023"
  proof -
    have "2 * D * uro \<le> 2 * 274 * 1" using D uro_pos D0
      by (intro mult_mono) (simp_all add: uro_def)
    moreover have "(2 ^ 982 + 274 + 2 ^ 982 * (3003 / 1000 * uro) + (275 * uro + 2 * 274 * 1)) * 2 < 2 powi 1023"
      by (simp add: uro_def eta_def)
    ultimately show ?thesis using D(2) by simp
  qed
  have c4: "0 < (1 / 2 :: rat)" by simp
  have 4: "near (fdiv (fsub (fadd (fmul v (Fin fA)) (Fin oA)) (Fin oB)) (Fin fB))
             ((val v * fA + oA - oB) / fB)
             (?X / fB * (4004 / 1000 * uro) + (551 * uro + 7 * D * uro))"
    by (rule near_fdiv_const[OF 3 b4 c4 fB(1) X0 n4(2) n4(1) D0 X o4 n4(3) a4])
  have X4: "?X / fB \<le> 2 ^ 983"
  proof -
    have "?X / fB \<le> 2 ^ 982 / (1 / 2)" using X fB(1) X0 by (intro frac_le) simp_all
    then show ?thesis by simp
  qed
  have X40: "0 \<le> ?X / fB" using X0 pB by simp
  have b5: "\<bar>(val v * fA + oA - oB) / fB\<bar> \<le> ?X / fB + 2 * D"
  proof -
    have "\<bar>(val v * fA + oA - oB) / fB\<bar> = \<bar>val v * fA + oA - oB\<bar> / fB" using pB by simp
    also have "\<dots> \<le> (?X + D) / fB" using b4 pB by (intro divide_right_mono) simp_all
    also have "\<dots> = ?X / fB + D / fB" by (simp add: add_divide_distrib)
    also have "\<dots> \<le> ?X / fB + D / (1 / 2)" using fB(1) D0 by (intro add_left_mono frac_le) simp_all
    finally show ?thesis by simp
  qed
  have n5: "0 \<le> 551 * uro + 7 * D * uro" "0 \<le> 4004 / 1000 * uro" "0 \<le> 2 * D"
    "4004 / 1000 * uro + uro + 4004 / 1000 * uro * uro \<le> 5005 / 1000 * uro"
    using D0 by (simp_all add: uro_def eta_def)
  have a5: "10 ^ 12 * (551 * uro + 7 * D * uro + (551 * uro + 7 * D * uro + 2 * D) * uro) + eta
              \<le> 10 ^ 12 * (552 * uro + 10 * D * uro)"
  proof -
    have "7 * D * uro + (7 * D * uro + 2 * D) * uro \<le> 10 * D * uro"
    proof -
      have "7 * D * uro + (7 * D * uro + 2 * D) * uro = D * (uro * (9 + 7 * uro))"
        by (simp add: algebra_simps)
      also have "\<dots> \<le> D * (uro * 10)"
        using D0 by (intro mult_left_mono) (simp_all add: uro_def)
      finally show ?thesis by (simp add: algebra_simps)
    qed
    then have "10 ^ 12 * (7 * D * uro + (7 * D * uro + 2 * D) * uro) \<le> 10 ^ 12 * (10 * D * uro)"
      by (intro mult_left_mono) simp_all
    moreover have "10 ^ 12 * (551 * uro + 551 * uro * uro) + eta \<le> 10 ^ 12 * (552 * uro)"
      by (simp add: uro_def eta_def)
    ultimately show ?thesis by (simp add: algebra_simps)
  qed
  have o5: "(2 ^ 983 + 2 * D + 2 ^ 983 * (4004 / 1000 * uro) + (551 * uro + 7 * D * uro)) * 10 ^ 12
              < 2 powi 1023"
  proof -
    have "7 * D * uro \<le> 7 * 274 * 1" using D uro_pos D0
      by (intro mult_mono) (simp_all add: uro_def)
    moreover have "(2 ^ 983 + 2 * 274 + 2 ^ 983 * (4004 / 1000 * uro) + (551 * uro + 7 * 274 * 1)) * 10 ^ 12
              < 2 powi 1023"
      by (simp add: uro_def eta_def)
    ultimately show ?thesis using D(2) by simp
  qed
  have c5: "0 < (10 ^ 12 :: rat)" "(10 ^ 12 :: rat) \<le> 10 ^ 12" by simp_all
  have 5: "near (fmul (fdiv (fsub (fadd (fmul v (Fin fA)) (Fin oA)) (Fin oB)) (Fin fB)) (Fin (10 ^ 12)))
             ((val v * fA + oA - oB) / fB * 10 ^ 12)
             (?X / fB * 10 ^ 12 * (5005 / 1000 * uro) + 10 ^ 12 * (552 * uro + 10 * D * uro))"
    by (rule near_fmul_const[OF 4 b5 c5 X40 n5(2) n5(1) n5(3) X4 o5 n5(4) a5])
  show ?thesis by (rule 5)
qed

lemma temp_identity:
  fixes f o' :: rat
  assumes f: "1 / 2 \<le> f" "f \<le> 1" and o': "0 \<le> o'" "o' \<le> 274"
    and z: "fadd (Fin 0) (Fin o') = Fin o'" and k: "\<bar>k\<bar> \<le> 5 * 10 ^ 14"
  shows "round12 (fdiv (fsub (fadd (fmul (lit (of_int k / 10 ^ 12)) (Fin f)) (Fin o')) (Fin o')) (Fin f))
           = lit (of_int k / 10 ^ 12)"
proof (cases "k = 0")
  case True
  have pf: "0 < f" using f(1) by simp
  then have "fmul (Fin 0) (Fin f) = Fin 0" by (simp add: fmul_def signed_zero_def)
  moreover have "fsub (Fin o') (Fin o') = Fin 0"
    by (cases "o' = 0") (simp_all add: fsub_def fadd_def signed_zero_def)
  moreover have "fdiv (Fin 0) (Fin f) = Fin 0" using pf by (simp add: fdiv_def signed_zero_def)
  ultimately show ?thesis using True z by (simp add: round12_zero)
next
  case False
  define v where "v = lit (of_int k / 10 ^ 12)"
  define K :: rat where "K = \<bar>of_int k\<bar>"
  have pf: "0 < f" using f(1) by simp
  have "(of_int \<bar>k\<bar> :: rat) \<le> of_int (5 * 10 ^ 14)" using k by (simp only: of_int_le_iff)
  then have K: "K \<le> 5 * 10 ^ 14" "0 \<le> K" by (simp_all add: K_def)
  have nv: "near v (of_int k / 10 ^ 12) (K / 10 ^ 12 * uro + eta)"
    unfolding v_def K_def using k by (rule lit_grid_near)
  then have fv: "\<not> is_nan v" "\<not> is_inf v" and dv: "\<bar>val v - of_int k / 10 ^ 12\<bar> \<le> K / 10 ^ 12 * uro + eta"
    by (simp_all add: near_def)
  have av: "\<bar>val v\<bar> \<le> K / 10 ^ 12 + (K / 10 ^ 12 * uro + eta)"
  proof -
    have "\<bar>val v\<bar> \<le> \<bar>of_int k / 10 ^ 12\<bar> + \<bar>val v - of_int k / 10 ^ 12\<bar>" by linarith
    then show ?thesis using dv by (simp add: K_def)
  qed
  have V: "\<bar>val v\<bar> \<le> 2 ^ 982" using av K by (simp add: uro_def eta_def)
  let ?s = "fmul (fdiv (fsub (fadd (fmul v (Fin f)) (Fin o')) (Fin o')) (Fin f)) (Fin (10 ^ 12))"
  have "near ?s ((val v * f + o' - o') / f * 10 ^ 12)
          (\<bar>val v\<bar> * f / f * 10 ^ 12 * (5005 / 1000 * uro) + 10 ^ 12 * (552 * uro + 10 * 0 * uro))"
    using fv V f f o' o' by (rule temp_scaled) simp_all
  then have ns: "near ?s (val v * 10 ^ 12) (\<bar>val v\<bar> * 10 ^ 12 * (5005 / 1000 * uro) + 10 ^ 12 * (552 * uro))"
    using pf by simp
  then have fs: "\<not> is_nan ?s" "\<not> is_inf ?s"
    and ds: "\<bar>val ?s - val v * 10 ^ 12\<bar> \<le> \<bar>val v\<bar> * 10 ^ 12 * (5005 / 1000 * uro) + 10 ^ 12 * (552 * uro)"
    by (simp_all add: near_def)
  have d2: "\<bar>val v * 10 ^ 12 - of_int k\<bar> \<le> K * uro + 10 ^ 12 * eta"
  proof -
    have "\<bar>val v * 10 ^ 12 - of_int k\<bar> = \<bar>(val v - of_int k / 10 ^ 12) * 10 ^ 12\<bar>"
      by (simp add: algebra_simps)
    also have "\<dots> = \<bar>val v - of_int k / 10 ^ 12\<bar> * 10 ^ 12"
      by (simp only: abs_mult) simp
    also have "\<dots> \<le> (K / 10 ^ 12 * uro + eta) * 10 ^ 12" using dv by (intro mult_right_mono) simp_all
    finally show ?thesis by (simp add: algebra_simps)
  qed
  have a2: "\<bar>val v\<bar> * 10 ^ 12 \<le> K + K * uro + 10 ^ 12 * eta"
  proof -
    have "\<bar>val v\<bar> * 10 ^ 12 \<le> (K / 10 ^ 12 + (K / 10 ^ 12 * uro + eta)) * 10 ^ 12"
      using av by (intro mult_right_mono) simp_all
    then show ?thesis by (simp add: algebra_simps)
  qed
  have "\<bar>val v\<bar> * 10 ^ 12 * (5005 / 1000 * uro) \<le> (K + K * uro + 10 ^ 12 * eta) * (5005 / 1000 * uro)"
    using a2 by (intro mult_right_mono) (simp_all add: uro_def)
  then have "\<bar>val ?s - of_int k\<bar> \<le> (K + K * uro + 10 ^ 12 * eta) * (5005 / 1000 * uro)
                + 10 ^ 12 * (552 * uro) + K * uro + 10 ^ 12 * eta"
    using ds d2 by linarith
  also have "\<dots> < 1 / 2" using K by (simp add: uro_def eta_def algebra_simps)
  finally have "\<bar>val ?s - of_int k\<bar> < 1 / 2" .
  with fs have "round12 (fdiv (fsub (fadd (fmul v (Fin f)) (Fin o')) (Fin o')) (Fin f)) = lit (of_int k / 10 ^ 12)"
    using False by (intro round12_exact)
  then show ?thesis by (simp add: v_def)
qed

lemma round12_near:
  assumes s: "near (fmul r (Fin (10 ^ 12))) (x * 10 ^ 12) (X * 10 ^ 12 * \<rho> + \<alpha>)"
    and xb: "\<bar>x * 10 ^ 12\<bar> \<le> X * 10 ^ 12 + \<beta>"
    and nn: "0 \<le> X" "0 \<le> \<rho>" "0 \<le> \<alpha>" "0 \<le> \<beta>"
    and X: "X \<le> Xmax"
    and ovf: "(Xmax * 10 ^ 12 + \<beta> + Xmax * 10 ^ 12 * \<rho> + (\<alpha> + 1 / 2)) / 10 ^ 12 < 2 powi 1023"
    and r: "\<rho> + uro + \<rho> * uro \<le> \<rho>'"
    and a: "(\<alpha> + 1 / 2 + (\<alpha> + 1 / 2 + \<beta>) * uro) / 10 ^ 12 + eta \<le> \<alpha>'"
  shows "near (round12 r) x (X * \<rho>' + \<alpha>')"
proof -
  let ?t = "math_Round (fmul r (Fin (10 ^ 12)))"
  have "near ?t (x * 10 ^ 12) (X * 10 ^ 12 * \<rho> + \<alpha> + 1 / 2)"
    using s by (rule near_math_Round)
  then have t: "near ?t (x * 10 ^ 12) (X * 10 ^ 12 * \<rho> + (\<alpha> + 1 / 2))"
    by (simp add: add.assoc)
  have c: "0 < (10 ^ 12 :: rat)" "(10 ^ 12 :: rat) \<le> 10 ^ 12" by simp_all
  have n: "0 \<le> X * 10 ^ 12" "0 \<le> \<alpha> + 1 / 2" "X * 10 ^ 12 \<le> Xmax * 10 ^ 12"
    using nn X by simp_all
  have "near (fdiv ?t (Fin (10 ^ 12))) (x * 10 ^ 12 / 10 ^ 12) (X * 10 ^ 12 / 10 ^ 12 * \<rho>' + \<alpha>')"
    by (rule near_fdiv_const[OF t xb c n(1) nn(2) n(2) nn(4) n(3) ovf r a])
  then show ?thesis by (simp add: round12_unfold)
qed

lemma ratio_convert_near:
  fixes fA fB :: rat
  assumes v: "\<not> is_nan v" "\<not> is_inf v" and V: "\<bar>val v\<bar> \<le> 2 ^ 981"
    and W: "\<bar>val v\<bar> * fA / fB \<le> 2 ^ 981"
    and fA: "2 powi (- 30) \<le> fA" "fA \<le> 2 powi 40"
    and fB: "2 powi (- 30) \<le> fB" "fB \<le> 2 powi 40"
  shows "near (round12 (fdiv (fmul v (Fin fA)) (Fin fB))) (val v * fA / fB)
              (\<bar>val v\<bar> * fA / fB * (4004 / 1000 * uro) + (1 / (2 * 10 ^ 12) + 1 / 10 ^ 27))"
proof -
  have pA: "0 < fA" and pB: "0 < fB" using fA(1) fB(1) by simp_all
  let ?X = "\<bar>val v\<bar> * fA / fB"
  have X0: "0 \<le> ?X" using pA pB by simp
  have s: "near (fmul (fdiv (fmul v (Fin fA)) (Fin fB)) (Fin (10 ^ 12))) (val v * fA / fB * 10 ^ 12)
             (?X * 10 ^ 12 * (3003 / 1000 * uro) + 2 powi 72 * eta)"
    using v V W fA fB by (rule ratio_scaled)
  have xb: "\<bar>val v * fA / fB * 10 ^ 12\<bar> \<le> ?X * 10 ^ 12 + 0"
    using pA pB by (simp add: abs_mult)
  show ?thesis
    by (rule round12_near[OF s xb X0 _ _ _ W]) (simp_all add: uro_def eta_def)
qed

lemma temp_convert_near:
  fixes fA fB oA oB :: rat
  assumes v: "\<not> is_nan v" "\<not> is_inf v" and V: "\<bar>val v\<bar> \<le> 2 ^ 982"
    and fA: "1 / 2 \<le> fA" "fA \<le> 1" and fB: "1 / 2 \<le> fB" "fB \<le> 1"
    and oA: "0 \<le> oA" "oA \<le> 274" and oB: "0 \<le> oB" "oB \<le> 274"
  shows "near (round12 (fdiv (fsub (fadd (fmul v (Fin fA)) (Fin oA)) (Fin oB)) (Fin fB)))
              ((val v * fA + oA - oB) / fB)
              (\<bar>val v\<bar> * fA / fB * (6006 / 1000 * uro) + (1 / (2 * 10 ^ 12) + 4200 * uro))"
proof -
  have pA: "0 < fA" and pB: "0 < fB" using fA(1) fB(1) by simp_all
  let ?X = "\<bar>val v\<bar> * fA / fB"
  have X0: "0 \<le> ?X" using pA pB by simp
  have X: "?X \<le> 2 ^ 983"
  proof -
    have "\<bar>val v\<bar> * fA \<le> 2 ^ 982 * 1" using V fA(2) pA by (intro mult_mono) simp_all
    then have "?X \<le> (2 ^ 982 * 1) / (1 / 2)"
      using fB(1) pB by (intro frac_le) simp_all
    then show ?thesis by simp
  qed
  have D: "\<bar>oA - oB\<bar> \<le> 274" using oA oB by linarith
  have "near (fmul (fdiv (fsub (fadd (fmul v (Fin fA)) (Fin oA)) (Fin oB)) (Fin fB)) (Fin (10 ^ 12)))
             ((val v * fA + oA - oB) / fB * 10 ^ 12)
             (?X * 10 ^ 12 * (5005 / 1000 * uro) + 10 ^ 12 * (552 * uro + 10 * 274 * uro))"
    using v V fA fB oA oB D by (rule temp_scaled) simp
  then have s: "near (fmul (fdiv (fsub (fadd (fmul v (Fin fA)) (Fin oA)) (Fin oB)) (Fin fB)) (Fin (10 ^ 12)))
             ((val v * fA + oA - oB) / fB * 10 ^ 12)
             (?X * 10 ^ 12 * (5005 / 1000 * uro) + 10 ^ 12 * (3292 * uro))"
    by (simp add: algebra_simps)
  have xb: "\<bar>(val v * fA + oA - oB) / fB * 10 ^ 12\<bar> \<le> ?X * 10 ^ 12 + 548 * 10 ^ 12"
  proof -
    have "\<bar>val v * fA + (oA - oB)\<bar> \<le> \<bar>val v * fA\<bar> + \<bar>oA - oB\<bar>" by (rule abs_triangle_ineq)
    then have "\<bar>val v * fA + oA - oB\<bar> \<le> \<bar>val v\<bar> * fA + 274" using D pA by (simp add: abs_mult)
    then have "\<bar>val v * fA + oA - oB\<bar> / fB \<le> (\<bar>val v\<bar> * fA + 274) / fB"
      using pB by (intro divide_right_mono) simp_all
    also have "\<dots> = ?X + 274 / fB" by (simp add: add_divide_distrib)
    also have "\<dots> \<le> ?X + 274 / (1 / 2)" using fB(1) by (intro add_left_mono frac_le) simp_all
    finally have "\<bar>(val v * fA + oA - oB) / fB\<bar> \<le> ?X + 548" using pB by simp
    then have h: "\<bar>(val v * fA + oA - oB) / fB\<bar> * 10 ^ 12 \<le> (?X + 548) * 10 ^ 12"
      by (intro mult_right_mono) simp_all
    have e1: "\<bar>(val v * fA + oA - oB) / fB * 10 ^ 12\<bar> = \<bar>(val v * fA + oA - oB) / fB\<bar> * 10 ^ 12"
      by (simp only: abs_mult) simp
    have e2: "?X * 10 ^ 12 + 548 * 10 ^ 12 = (?X + 548) * 10 ^ 12"
      by (simp only: distrib_right)
    show ?thesis unfolding e1 e2 by (rule h)
  qed
  show ?thesis
    by (rule round12_near[OF s xb X0 _ _ _ X]) (simp_all add: uro_def eta_def)
qed

lemma ratio_round_trip:
  fixes fA fB :: rat
  assumes v: "\<not> is_nan v" "\<not> is_inf v"
    and lo: "1 / 200 \<le> \<bar>val v\<bar>" and hi: "\<bar>val v\<bar> \<le> 2 ^ 980"
    and fA: "2 powi (- 30) \<le> fA" "fA \<le> 2 powi 40"
    and fB: "2 powi (- 30) \<le> fB" "fB \<le> 2 powi 40"
    and cv: "1 / 200 \<le> \<bar>val v\<bar> * fA / fB" "\<bar>val v\<bar> * fA / fB \<le> 2 ^ 980"
  shows "near (round12 (fdiv (fmul (round12 (fdiv (fmul v (Fin fA)) (Fin fB))) (Fin fB)) (Fin fA)))
              (val v) (\<bar>val v\<bar> / 10 ^ 9)"
proof -
  define w where "w = round12 (fdiv (fmul v (Fin fA)) (Fin fB))"
  define r where "r = round12 (fdiv (fmul w (Fin fB)) (Fin fA))"
  define \<rho> :: rat where "\<rho> = 4004 / 1000 * uro"
  define \<alpha> :: rat where "\<alpha> = 1 / (2 * 10 ^ 12) + 1 / 10 ^ 27"
  define a where "a = \<bar>val v\<bar>"
  define q where "q = fB / fA"
  define X1 where "X1 = a * fA / fB"
  have pA: "0 < fA" and pB: "0 < fB" using fA(1) fB(1) by simp_all
  have q0: "0 < q" using pA pB by (simp add: q_def)
  have a0: "0 \<le> a" by (simp add: a_def)
  have X1q: "X1 * q = a" using pA pB by (simp add: X1_def q_def)
  have X10: "0 \<le> X1" using pA pB a0 by (simp add: X1_def)
  have V: "\<bar>val v\<bar> \<le> 2 ^ 981" using hi by simp
  have W: "\<bar>val v\<bar> * fA / fB \<le> 2 ^ 981" using cv(2) by simp
  have 1: "near w (val v * fA / fB) (X1 * \<rho> + \<alpha>)"
    unfolding w_def X1_def a_def \<rho>_def \<alpha>_def using v V W fA fB by (rule ratio_convert_near)
  then have fw: "\<not> is_nan w" "\<not> is_inf w" and dw: "\<bar>val w - val v * fA / fB\<bar> \<le> X1 * \<rho> + \<alpha>"
    by (simp_all add: near_def)
  have ax: "\<bar>val v * fA / fB\<bar> = X1" using pA pB by (simp add: X1_def a_def abs_mult)
  have aw: "\<bar>val w\<bar> \<le> X1 + (X1 * \<rho> + \<alpha>)"
  proof -
    have "\<bar>val w\<bar> \<le> \<bar>val v * fA / fB\<bar> + \<bar>val w - val v * fA / fB\<bar>" by linarith
    then show ?thesis using dw ax by linarith
  qed
  have X1h: "X1 \<le> 2 ^ 980" using cv(2) by (simp add: X1_def a_def)
  have ah: "a \<le> 2 ^ 980" using hi by (simp add: a_def)
  have r0: "0 \<le> \<rho>" and al0: "0 \<le> \<alpha>" by (simp_all add: \<rho>_def \<alpha>_def uro_def)
  have "X1 * \<rho> \<le> 2 ^ 980 * \<rho>" using X1h r0 by (rule mult_right_mono)
  then have Vw: "\<bar>val w\<bar> \<le> 2 ^ 981" using aw X1h by (simp add: \<rho>_def \<alpha>_def uro_def)
  have qb: "q \<le> 200 * a"
  proof -
    have "1 / 200 * q \<le> (a * fA / fB) * q" using cv(1) q0 unfolding a_def by (intro mult_right_mono) simp_all
    also have "\<dots> = a" using X1q by (simp add: X1_def)
    finally show ?thesis by simp
  qed
  have t2: "\<alpha> * q \<le> \<alpha> * (200 * a)" using qb al0 by (rule mult_left_mono)
  have "\<bar>val w\<bar> * q \<le> (X1 + (X1 * \<rho> + \<alpha>)) * q" using aw q0 by (intro mult_right_mono) simp_all
  also have "\<dots> = a + a * \<rho> + \<alpha> * q" using X1q by (simp add: algebra_simps)
  finally have P: "\<bar>val w\<bar> * q \<le> a + a * \<rho> + \<alpha> * q" .
  have Ww: "\<bar>val w\<bar> * fB / fA \<le> 2 ^ 981"
  proof -
    have "a + a * \<rho> + \<alpha> * (200 * a) = a * (1 + \<rho> + 200 * \<alpha>)" by (simp add: algebra_simps)
    also have "\<dots> \<le> a * 2" using a0 by (intro mult_left_mono) (simp_all add: \<rho>_def \<alpha>_def uro_def)
    finally have "\<bar>val w\<bar> * q \<le> a * 2" using P t2 by linarith
    then show ?thesis using ah by (simp add: q_def)
  qed
  have 2: "near r (val w * fB / fA) (\<bar>val w\<bar> * fB / fA * \<rho> + \<alpha>)"
    unfolding r_def \<rho>_def \<alpha>_def using fw Vw Ww fB fA by (rule ratio_convert_near)
  then have fr: "\<not> is_nan r" "\<not> is_inf r"
    and dr: "\<bar>val r - val w * fB / fA\<bar> \<le> \<bar>val w\<bar> * q * \<rho> + \<alpha>"
    by (simp_all add: near_def q_def)
  have e: "val w * fB / fA - val v = (val w - val v * fA / fB) * q"
    using pA pB by (simp add: q_def field_simps)
  have "\<bar>val w * fB / fA - val v\<bar> = \<bar>val w - val v * fA / fB\<bar> * q"
    unfolding e using q0 by (simp add: abs_mult)
  also have "\<dots> \<le> (X1 * \<rho> + \<alpha>) * q" using dw q0 by (intro mult_right_mono) simp_all
  also have "\<dots> = a * \<rho> + \<alpha> * q" using X1q by (simp add: algebra_simps)
  finally have Dw: "\<bar>val w * fB / fA - val v\<bar> \<le> a * \<rho> + \<alpha> * q" .
  have ab: "1 \<le> 200 * a" using lo by (simp add: a_def)
  have t1: "\<bar>val w\<bar> * q * \<rho> \<le> (a + a * \<rho> + \<alpha> * q) * \<rho>" using P r0 by (rule mult_right_mono)
  have t3: "\<alpha> * q * \<rho> \<le> \<alpha> * (200 * a) * \<rho>" using t2 r0 by (rule mult_right_mono)
  have t4: "\<alpha> * 1 \<le> \<alpha> * (200 * a)" using ab al0 by (rule mult_left_mono)
  have "\<bar>val r - val v\<bar> \<le> \<bar>val r - val w * fB / fA\<bar> + \<bar>val w * fB / fA - val v\<bar>" by linarith
  also have "\<dots> \<le> (a + a * \<rho> + \<alpha> * q) * \<rho> + \<alpha> + (a * \<rho> + \<alpha> * q)"
    using dr Dw t1 by linarith
  also have "\<dots> = a * \<rho> + a * \<rho> * \<rho> + \<alpha> * q * \<rho> + \<alpha> * 1 + a * \<rho> + \<alpha> * q"
    by (simp add: algebra_simps)
  also have "\<dots> \<le> a * \<rho> + a * \<rho> * \<rho> + \<alpha> * (200 * a) * \<rho> + \<alpha> * (200 * a) + a * \<rho> + \<alpha> * (200 * a)"
    using t2 t3 t4 by linarith
  also have "\<dots> = a * (2 * \<rho> + \<rho> * \<rho> + 200 * \<alpha> * \<rho> + 400 * \<alpha>)"
    by (simp add: algebra_simps)
  also have "\<dots> \<le> a * (1 / 10 ^ 9)"
    using a0 by (intro mult_left_mono) (simp_all add: \<rho>_def \<alpha>_def uro_def)
  finally have "\<bar>val r - val v\<bar> \<le> a / 10 ^ 9" by simp
  then show ?thesis using fr by (simp add: near_def r_def w_def a_def)
qed

lemma temp_round_trip:
  fixes fA fB oA oB :: rat
  assumes v: "\<not> is_nan v" "\<not> is_inf v"
    and lo: "1 / 200 \<le> \<bar>val v\<bar>" and hi: "\<bar>val v\<bar> \<le> 2 ^ 980"
    and fA: "1 / 2 \<le> fA" "fA \<le> 1" and fB: "1 / 2 \<le> fB" "fB \<le> 1"
    and oA: "0 \<le> oA" "oA \<le> 274" and oB: "0 \<le> oB" "oB \<le> 274"
  shows "near (round12 (fdiv (fsub (fadd (fmul
                 (round12 (fdiv (fsub (fadd (fmul v (Fin fA)) (Fin oA)) (Fin oB)) (Fin fB)))
                 (Fin fB)) (Fin oB)) (Fin oA)) (Fin fA)))
              (val v) (\<bar>val v\<bar> / 10 ^ 9)"
proof -
  define w where "w = round12 (fdiv (fsub (fadd (fmul v (Fin fA)) (Fin oA)) (Fin oB)) (Fin fB))"
  define r where "r = round12 (fdiv (fsub (fadd (fmul w (Fin fB)) (Fin oB)) (Fin oA)) (Fin fA))"
  define \<rho> :: rat where "\<rho> = 6006 / 1000 * uro"
  define \<alpha> :: rat where "\<alpha> = 1 / (2 * 10 ^ 12) + 4200 * uro"
  define a where "a = \<bar>val v\<bar>"
  define q where "q = fB / fA"
  define X1 where "X1 = a * fA / fB"
  define x1 where "x1 = (val v * fA + oA - oB) / fB"
  have pA: "0 < fA" and pB: "0 < fB" using fA(1) fB(1) by simp_all
  have q0: "0 < q" using pA pB by (simp add: q_def)
  have q2: "q \<le> 2"
  proof -
    have "fB / fA \<le> 1 / (1 / 2)" using fA(1) fB(2) pB by (intro frac_le) simp_all
    then show ?thesis by (simp add: q_def)
  qed
  have a0: "0 \<le> a" by (simp add: a_def)
  have X1q: "X1 * q = a" using pA pB by (simp add: X1_def q_def)
  have X10: "0 \<le> X1" using pA pB a0 by (simp add: X1_def)
  have V: "\<bar>val v\<bar> \<le> 2 ^ 982" using hi by simp
  have 1: "near w x1 (X1 * \<rho> + \<alpha>)"
    unfolding w_def X1_def a_def \<rho>_def \<alpha>_def x1_def using v V fA fB oA oB by (rule temp_convert_near)
  then have fw: "\<not> is_nan w" "\<not> is_inf w" and dw: "\<bar>val w - x1\<bar> \<le> X1 * \<rho> + \<alpha>"
    by (simp_all add: near_def)
  have D: "\<bar>oA - oB\<bar> \<le> 274" using oA oB by linarith
  have n1: "\<bar>val v * fA + oA - oB\<bar> \<le> a * fA + 274"
  proof -
    have "\<bar>val v * fA + (oA - oB)\<bar> \<le> \<bar>val v * fA\<bar> + \<bar>oA - oB\<bar>" by (rule abs_triangle_ineq)
    then show ?thesis using D pA by (simp add: abs_mult a_def)
  qed
  have x1q: "\<bar>x1\<bar> * q \<le> a + 548"
  proof -
    have "\<bar>x1\<bar> * q = \<bar>val v * fA + oA - oB\<bar> / fA" using pA pB by (simp add: x1_def q_def)
    also have "\<dots> \<le> (a * fA + 274) / fA" using n1 pA by (intro divide_right_mono) simp_all
    also have "\<dots> = a + 274 / fA" using pA by (simp add: add_divide_distrib)
    also have "\<dots> \<le> a + 274 / (1 / 2)" using fA(1) by (intro add_left_mono frac_le) simp_all
    finally show ?thesis by simp
  qed
  have x1b: "\<bar>x1\<bar> \<le> X1 + 548"
  proof -
    have "\<bar>x1\<bar> = \<bar>val v * fA + oA - oB\<bar> / fB" using pB by (simp add: x1_def)
    also have "\<dots> \<le> (a * fA + 274) / fB" using n1 pB by (intro divide_right_mono) simp_all
    also have "\<dots> = X1 + 274 / fB" by (simp add: add_divide_distrib X1_def)
    also have "\<dots> \<le> X1 + 274 / (1 / 2)" using fB(1) by (intro add_left_mono frac_le) simp_all
    finally show ?thesis by simp
  qed
  have aw: "\<bar>val w\<bar> \<le> \<bar>x1\<bar> + (X1 * \<rho> + \<alpha>)"
  proof -
    have "\<bar>val w\<bar> \<le> \<bar>x1\<bar> + \<bar>val w - x1\<bar>" by linarith
    then show ?thesis using dw by linarith
  qed
  have X1h: "X1 \<le> 2 ^ 981"
  proof -
    have "a * fA \<le> 2 ^ 980 * 1" using hi fA(2) pA unfolding a_def by (intro mult_mono) simp_all
    then have "a * fA / fB \<le> (2 ^ 980 * 1) / (1 / 2)" using fB(1) pB by (intro frac_le) simp_all
    then show ?thesis by (simp add: X1_def)
  qed
  have "X1 * \<rho> \<le> 2 ^ 981 * \<rho>" using X1h by (intro mult_right_mono) (simp_all add: \<rho>_def uro_def)
  then have Vw: "\<bar>val w\<bar> \<le> 2 ^ 982" using aw x1b X1h by (simp add: \<rho>_def \<alpha>_def uro_def)
  have 2: "near r ((val w * fB + oB - oA) / fA) (\<bar>val w\<bar> * fB / fA * \<rho> + \<alpha>)"
    unfolding r_def \<rho>_def \<alpha>_def using fw Vw fB fA oB oA by (rule temp_convert_near)
  then have fr: "\<not> is_nan r" "\<not> is_inf r"
    and dr: "\<bar>val r - (val w * fB + oB - oA) / fA\<bar> \<le> \<bar>val w\<bar> * q * \<rho> + \<alpha>"
    by (simp_all add: near_def q_def)
  have e: "(val w * fB + oB - oA) / fA - val v = (val w - x1) * q"
    using pA pB by (simp add: q_def x1_def field_simps)
  have "\<bar>(val w * fB + oB - oA) / fA - val v\<bar> = \<bar>val w - x1\<bar> * q"
    unfolding e using q0 by (simp add: abs_mult)
  also have "\<dots> \<le> (X1 * \<rho> + \<alpha>) * q" using dw q0 by (intro mult_right_mono) simp_all
  also have "\<dots> = a * \<rho> + \<alpha> * q" using X1q by (simp add: algebra_simps)
  finally have Dw: "\<bar>(val w * fB + oB - oA) / fA - val v\<bar> \<le> a * \<rho> + \<alpha> * q" .
  have "\<bar>val w\<bar> * q \<le> (\<bar>x1\<bar> + (X1 * \<rho> + \<alpha>)) * q" using aw q0 by (intro mult_right_mono) simp_all
  also have "\<dots> = \<bar>x1\<bar> * q + a * \<rho> + \<alpha> * q" using X1q by (simp add: algebra_simps)
  finally have P: "\<bar>val w\<bar> * q \<le> a + 548 + a * \<rho> + \<alpha> * q" using x1q by linarith
  have ab: "1 \<le> 200 * a" using lo by (simp add: a_def)
  have r0: "0 \<le> \<rho>" and al0: "0 \<le> \<alpha>" by (simp_all add: \<rho>_def \<alpha>_def uro_def)
  have t1: "\<bar>val w\<bar> * q * \<rho> \<le> (a + 548 + a * \<rho> + \<alpha> * q) * \<rho>" using P r0 by (rule mult_right_mono)
  have t2: "\<alpha> * q \<le> \<alpha> * 2" using q2 al0 by (rule mult_left_mono)
  have t3: "\<alpha> * q * \<rho> \<le> \<alpha> * 2 * \<rho>" using t2 r0 by (rule mult_right_mono)
  have c0: "0 \<le> 548 * \<rho> + \<alpha> * 2 * \<rho> + 3 * \<alpha>" using r0 al0 by simp
  have t4: "(548 * \<rho> + \<alpha> * 2 * \<rho> + 3 * \<alpha>) * 1 \<le> (548 * \<rho> + \<alpha> * 2 * \<rho> + 3 * \<alpha>) * (200 * a)"
    using ab c0 by (rule mult_left_mono)
  have "\<bar>val r - val v\<bar> \<le> \<bar>val r - (val w * fB + oB - oA) / fA\<bar> + \<bar>(val w * fB + oB - oA) / fA - val v\<bar>"
    by linarith
  also have "\<dots> \<le> (a + 548 + a * \<rho> + \<alpha> * q) * \<rho> + \<alpha> + (a * \<rho> + \<alpha> * q)"
    using dr Dw t1 by linarith
  also have "\<dots> = a * \<rho> + 548 * \<rho> + a * \<rho> * \<rho> + \<alpha> * q * \<rho> + \<alpha> + a * \<rho> + \<alpha> * q"
    by (simp add: algebra_simps)
  also have "\<dots> \<le> a * \<rho> + a * \<rho> * \<rho> + a * \<rho> + (548 * \<rho> + \<alpha> * 2 * \<rho> + 3 * \<alpha>) * 1"
    using t2 t3 by (simp add: algebra_simps)
  also have "\<dots> \<le> a * \<rho> + a * \<rho> * \<rho> + a * \<rho> + (548 * \<rho> + \<alpha> * 2 * \<rho> + 3 * \<alpha>) * (200 * a)"
    using t4 by linarith
  also have "\<dots> = a * (2 * \<rho> + \<rho> * \<rho> + 200 * (548 * \<rho> + \<alpha> * 2 * \<rho> + 3 * \<alpha>))"
    by (simp add: algebra_simps)
  also have "\<dots> \<le> a * (1 / 10 ^ 9)"
    using a0 by (intro mult_left_mono) (simp_all add: \<rho>_def \<alpha>_def uro_def)
  finally have "\<bar>val r - val v\<bar> \<le> a / 10 ^ 9" by simp
  then show ?thesis using fr by (simp add: near_def r_def w_def a_def)
qed

section \<open>Identity and round trip\<close>

lemma Convert_third_m_m:
  "Convert NewUnitConverter (lit (1 / 3)) ''m'' ''m'' = (Fin (6004799503154657 / 18014398509481984), None)"
proof -
  have s1: "lit (1 / 3) = Fin (6004799503160661 / 18014398509481984)"
    unfolding lit_def by (rule f64_round_eqI[where k="- 2" and e="- 54" and m=6004799503160661]; simp)
  have s2: "lit 1 = Fin 1"
    unfolding lit_def by (rule f64_round_eqI[where k=0 and e="- 52" and m=4503599627370496]; simp)
  have s3: "fmul (Fin (6004799503160661 / 18014398509481984)) (Fin 1) = Fin (6004799503160661 / 18014398509481984)"
    by (simp add: fmul_Fin, rule f64_round_eqI[where k="- 2" and e="- 54" and m=6004799503160661]; simp)
  have s4: "fdiv (Fin (6004799503160661 / 18014398509481984)) (Fin 1) = Fin (6004799503160661 / 18014398509481984)"
    by (simp add: fdiv_Fin, rule f64_round_eqI[where k="- 2" and e="- 54" and m=6004799503160661]; simp)
  have s5: "math_Pow_10 12 = Fin 1000000000000"
    unfolding math_Pow_10_def by (simp, rule f64_round_eqI[where k=39 and e="- 13" and m=8192000000000000]; simp)
  have s6: "fmul (Fin (6004799503160661 / 18014398509481984)) (Fin 1000000000000) = Fin (5461333333333333 / 16384)"
    by (simp add: fmul_Fin, rule f64_round_eqI[where k=38 and e="- 14" and m=5461333333333333]; simp)
  have s7: "math_Round (Fin (5461333333333333 / 16384)) = Fin 333333333333"
    by (rule math_Round_eqI[where n=333333333333]; simp add: signed_zero_def)
  have s8: "fdiv (Fin 333333333333) (Fin 1000000000000) = Fin (6004799503154657 / 18014398509481984)"
    by (simp add: fdiv_Fin, rule f64_round_eqI[where k="- 2" and e="- 54" and m=6004799503154657]; simp)
  have s9: "round12 (Fin (6004799503160661 / 18014398509481984)) = Fin (6004799503154657 / 18014398509481984)"
    by (simp add: round12_def Let_def s1 s2 s3 s4 s5 s6 s7 s8)
  show ?thesis
    by (simp add: Convert_def Let_def units_m s1 s2 s3 s4 s5 s6 s7 s8 s9)
qed

lemma lit_third: "lit (1 / 3) = Fin (6004799503160661 / 18014398509481984)"
  unfolding lit_def by (rule f64_round_eqI[where k="- 2" and e="- 54" and m=6004799503160661]; simp)

text \<open>
  C1.  The claim that \<^verbatim>\<open>Convert(v, A, A)\<close> returns \<open>v\<close> for every float64 \<open>v\<close> fails: the
  float64 nearest to 1/3 is 0.333333333333333315 and \<^verbatim>\<open>Convert\<close> returns 0.333333333333
  for it, from meters to meters.
\<close>

theorem Convert_identity_counterexample:
  "units NewUnitConverter ''m'' \<noteq> None
   \<and> Convert NewUnitConverter (lit (1 / 3)) ''m'' ''m'' \<noteq> (lit (1 / 3), None)"
  using Convert_third_m_m by (simp add: units_m lit_third)

text \<open>
  C1, as the code computes.  For every registered unit \<open>A\<close> and every value \<open>v\<close> that is
  the float64 nearest to a decimal with at most 12 fractional digits and magnitude at
  most 500 (\<open>v\<close> is the float64 of \<open>k / 10\<^sup>1\<^sup>2\<close> with \<open>|k| \<le> 5 \<sqdot> 10\<^sup>1\<^sup>4\<close>), \<^verbatim>\<open>Convert(v, A, A)\<close>
  returns \<open>v\<close> itself and no error.
\<close>

theorem Convert_identity_12_decimals:
  assumes A: "units NewUnitConverter A = Some u" and k: "\<bar>k\<bar> \<le> 5 * 10 ^ 14"
  shows "Convert NewUnitConverter (lit (of_int k / 10 ^ 12)) A A = (lit (of_int k / 10 ^ 12), None)"
proof -
  from units_ranges[OF A] obtain f o' where
    f: "Factor u = Fin f" "2 powi (- 30) \<le> f" "f \<le> 2 powi 40"
    and t: "Dimension u = ''temperature'' \<longrightarrow>
              Offset u = Fin o' \<and> 1 / 2 \<le> f \<and> f \<le> 1 \<and> 0 \<le> o' \<and> o' \<le> 274
              \<and> fadd (Fin 0) (Fin o') = Fin o'"
    by blast
  show ?thesis
  proof (cases "Dimension u = ''temperature''")
    case True
    with t have o': "Offset u = Fin o'" "1 / 2 \<le> f" "f \<le> 1" "0 \<le> o'" "o' \<le> 274"
      "fadd (Fin 0) (Fin o') = Fin o'" by simp_all
    show ?thesis
      using temp_identity[OF o'(2-6) k] by (simp add: Convert_def A True f(1) o'(1))
  next
    case False
    show ?thesis
      using ratio_identity[OF f(2,3) k] by (simp add: Convert_def A False f(1))
  qed
qed

theorem Convert_identity_12_decimals_witness:
  "units NewUnitConverter ''F''
     = Some \<lparr>Factor = lit (5 / 9), Dimension = ''temperature'', Name = ''Fahrenheit'', Offset = lit 255.372\<rparr>
   \<and> \<bar>1500000000000 :: int\<bar> \<le> 5 * 10 ^ 14
   \<and> Convert NewUnitConverter (lit (3 / 2)) ''F'' ''F'' = (lit (3 / 2), None)"
  using Convert_identity_12_decimals[OF units_F, of 1500000000000] units_F by simp

text \<open>
  C2.  The claim that converting from \<open>A\<close> to \<open>B\<close> and back returns a value within
  \<open>10\<^sup>-\<^sup>9\<close> relative tolerance for every value fails in three ways.  A small converted
  value: one nanometer is \<open>10\<^sup>-\<^sup>1\<^sup>2\<close> miles after the rounding at 12 decimals (the exact quotient
  is \<open>6.2 \<sqdot> 10\<^sup>-\<^sup>1\<^sup>3\<close>), and \<open>10\<^sup>-\<^sup>1\<^sup>2\<close> miles are 1.609344 nanometers.  A small value:
  0.0002000000004 minutes are 0.012000000024 seconds, which are 0.0002 minutes after the
  rounding.  A large value: \<open>10\<^sup>2\<^sup>9\<^sup>6\<close> degrees Celsius overflow in the multiplication by
  \<open>10\<^sup>1\<^sup>2\<close>, the conversion returns \<open>+\<infinity>\<close>, and \<open>+\<infinity>\<close> comes back as \<open>+\<infinity>\<close>.
\<close>

theorem Convert_round_trip_counterexample:
  "Convert NewUnitConverter (Fin 1) ''nm'' ''mi''
     = (Fin (4951760157141521 / 4951760157141521099596496896), None)
   \<and> Convert NewUnitConverter (Fin (4951760157141521 / 4951760157141521099596496896)) ''mi'' ''nm''
     = (Fin (226495032459717 / 140737488355328), None)
   \<and> \<not> \<bar>226495032459717 / 140737488355328 - (1::rat)\<bar> \<le> 1 / 10 ^ 9 * \<bar>1\<bar>
   \<and> lit 0.0002000000004 = Fin (115292150691269 / 576460752303423488)
   \<and> Convert NewUnitConverter (Fin (115292150691269 / 576460752303423488)) ''min'' ''s''
     = (Fin (1729382260369035 / 144115188075855872), None)
   \<and> Convert NewUnitConverter (Fin (1729382260369035 / 144115188075855872)) ''s'' ''min''
     = (Fin (7378697629483821 / 36893488147419103232), None)
   \<and> \<not> \<bar>7378697629483821 / 36893488147419103232 - (115292150691269 / 576460752303423488 :: rat)\<bar>
         \<le> 1 / 10 ^ 9 * \<bar>115292150691269 / 576460752303423488\<bar>
   \<and> \<not> is_nan (lit (10 ^ 296)) \<and> \<not> is_inf (lit (10 ^ 296))
   \<and> Convert NewUnitConverter (lit (10 ^ 296)) ''C'' ''F'' = (PosInf, None)
   \<and> Convert NewUnitConverter PosInf ''F'' ''C'' = (PosInf, None)"
proof -
  have a: "Convert NewUnitConverter (Fin 1) ''nm'' ''mi''
     = (Fin (4951760157141521 / 4951760157141521099596496896), None)
   \<and> Convert NewUnitConverter (Fin (4951760157141521 / 4951760157141521099596496896)) ''mi'' ''nm''
     = (Fin (226495032459717 / 140737488355328), None)
   \<and> \<not> \<bar>226495032459717 / 140737488355328 - (1::rat)\<bar> \<le> 1 / 10 ^ 9 * \<bar>1\<bar>"
    by (simp add: Convert_1_nm_mi Convert_back_mi_nm)
  have b: "lit 0.0002000000004 = Fin (115292150691269 / 576460752303423488)
   \<and> Convert NewUnitConverter (Fin (115292150691269 / 576460752303423488)) ''min'' ''s''
     = (Fin (1729382260369035 / 144115188075855872), None)
   \<and> Convert NewUnitConverter (Fin (1729382260369035 / 144115188075855872)) ''s'' ''min''
     = (Fin (7378697629483821 / 36893488147419103232), None)
   \<and> \<not> \<bar>7378697629483821 / 36893488147419103232 - (115292150691269 / 576460752303423488 :: rat)\<bar>
         \<le> 1 / 10 ^ 9 * \<bar>115292150691269 / 576460752303423488\<bar>"
    using lit_0_0002000000004 by (simp add: Convert_small_min_s Convert_small_s_min)
  from a b Convert_1e296_C_F Convert_inf_F_C show ?thesis
    by (intro conjI) (elim conjE, assumption)+
qed

text \<open>
  C2, as the code computes.  For two registered units \<open>A\<close> and \<open>B\<close> of one dimension and
  every finite value \<open>v\<close> with \<open>0.005 \<le> |v| \<le> 10\<^sup>2\<^sup>9\<^sup>5\<close>, where for a dimension other than
  temperature \<open>|v|\<close> times the quotient of the factors of \<open>A\<close> and \<open>B\<close> (the magnitude of the
  converted value) lies in the same range: both conversions succeed, and the value that
  comes back is finite and within \<open>10\<^sup>-\<^sup>9 \<sqdot> |v|\<close> of \<open>v\<close>.
\<close>

theorem Convert_round_trip:
  assumes A: "units NewUnitConverter A = Some ua" and B: "units NewUnitConverter B = Some ub"
    and dim: "Dimension ua = Dimension ub"
    and v: "\<not> is_nan v" "\<not> is_inf v"
    and lo: "1 / 200 \<le> \<bar>val v\<bar>" and hi: "\<bar>val v\<bar> \<le> 10 ^ 295"
    and cv: "Dimension ua \<noteq> ''temperature'' \<longrightarrow>
               1 / 200 \<le> \<bar>val v\<bar> * val (Factor ua) / val (Factor ub)
             \<and> \<bar>val v\<bar> * val (Factor ua) / val (Factor ub) \<le> 10 ^ 295"
  shows "\<exists>w r. Convert NewUnitConverter v A B = (w, None)
           \<and> Convert NewUnitConverter w B A = (r, None)
           \<and> \<not> is_nan r \<and> \<not> is_inf r
           \<and> \<bar>val r - val v\<bar> \<le> 1 / 10 ^ 9 * \<bar>val v\<bar>"
proof -
  have big: "(10 :: rat) ^ 295 \<le> 2 ^ 980" by simp
  have hi': "\<bar>val v\<bar> \<le> 2 ^ 980" using hi big by (rule order_trans)
  from units_ranges[OF A] obtain fA oA where
    fA: "Factor ua = Fin fA" "2 powi (- 30) \<le> fA" "fA \<le> 2 powi 40"
    and tA: "Dimension ua = ''temperature'' \<longrightarrow>
              Offset ua = Fin oA \<and> 1 / 2 \<le> fA \<and> fA \<le> 1 \<and> 0 \<le> oA \<and> oA \<le> 274
              \<and> fadd (Fin 0) (Fin oA) = Fin oA"
    by blast
  from units_ranges[OF B] obtain fB oB where
    fB: "Factor ub = Fin fB" "2 powi (- 30) \<le> fB" "fB \<le> 2 powi 40"
    and tB: "Dimension ub = ''temperature'' \<longrightarrow>
              Offset ub = Fin oB \<and> 1 / 2 \<le> fB \<and> fB \<le> 1 \<and> 0 \<le> oB \<and> oB \<le> 274
              \<and> fadd (Fin 0) (Fin oB) = Fin oB"
    by blast
  show ?thesis
  proof (cases "Dimension ua = ''temperature''")
    case True
    with tA tB dim have o: "Offset ua = Fin oA" "1 / 2 \<le> fA" "fA \<le> 1" "0 \<le> oA" "oA \<le> 274"
      "Offset ub = Fin oB" "1 / 2 \<le> fB" "fB \<le> 1" "0 \<le> oB" "oB \<le> 274" by simp_all
    define w where "w = round12 (fdiv (fsub (fadd (fmul v (Fin fA)) (Fin oA)) (Fin oB)) (Fin fB))"
    define r where "r = round12 (fdiv (fsub (fadd (fmul w (Fin fB)) (Fin oB)) (Fin oA)) (Fin fA))"
    have 1: "Convert NewUnitConverter v A B = (w, None)"
      using True dim by (simp add: Convert_def A B fA(1) fB(1) o(1,6) w_def)
    have 2: "Convert NewUnitConverter w B A = (r, None)"
      using True dim by (simp add: Convert_def A B fA(1) fB(1) o(1,6) r_def)
    have "near r (val v) (\<bar>val v\<bar> / 10 ^ 9)"
      unfolding r_def w_def using v lo hi' o(2,3) o(7,8) o(4,5) o(9,10) by (rule temp_round_trip)
    then show ?thesis using 1 2 by (simp add: near_def)
  next
    case False
    define w where "w = round12 (fdiv (fmul v (Fin fA)) (Fin fB))"
    define r where "r = round12 (fdiv (fmul w (Fin fB)) (Fin fA))"
    have 1: "Convert NewUnitConverter v A B = (w, None)"
      using False dim by (simp add: Convert_def A B fA(1) fB(1) w_def)
    have 2: "Convert NewUnitConverter w B A = (r, None)"
      using False dim by (simp add: Convert_def A B fA(1) fB(1) r_def)
    have cv1: "1 / 200 \<le> \<bar>val v\<bar> * fA / fB" and cv0: "\<bar>val v\<bar> * fA / fB \<le> 10 ^ 295"
      using cv False by (simp_all add: fA(1) fB(1))
    have cv2: "\<bar>val v\<bar> * fA / fB \<le> 2 ^ 980" using cv0 big by (rule order_trans)
    have "near r (val v) (\<bar>val v\<bar> / 10 ^ 9)"
      unfolding r_def w_def using v lo hi' fA(2,3) fB(2,3) cv1 cv2 by (rule ratio_round_trip)
    then show ?thesis using 1 2 by (simp add: near_def)
  qed
qed

theorem Convert_round_trip_witness:
  "units NewUnitConverter ''THz''
     = Some \<lparr>Factor = lit (10 ^ 12), Dimension = ''frequency'', Name = ''Terahertz'', Offset = lit 0\<rparr>
   \<and> units NewUnitConverter ''Hz''
     = Some \<lparr>Factor = lit 1, Dimension = ''frequency'', Name = ''Hertz'', Offset = lit 0\<rparr>
   \<and> (1 / 200 :: rat) \<le> \<bar>val (Fin 1)\<bar>
   \<and> \<bar>val (Fin 1)\<bar> \<le> (10 ^ 295 :: rat)
   \<and> (1 / 200 :: rat) \<le> \<bar>val (Fin 1)\<bar> * val (lit (10 ^ 12)) / val (lit 1)
   \<and> \<bar>val (Fin 1)\<bar> * val (lit (10 ^ 12)) / val (lit 1) \<le> (10 ^ 295 :: rat)
   \<and> (\<exists>w r. Convert NewUnitConverter (Fin 1) ''THz'' ''Hz'' = (w, None)
           \<and> Convert NewUnitConverter w ''Hz'' ''THz'' = (r, None)
           \<and> \<not> is_nan r \<and> \<not> is_inf r
           \<and> \<bar>val r - 1\<bar> \<le> 1 / 10 ^ 9)"
  using Convert_round_trip[OF units_THz units_Hz, of "Fin 1"] units_THz units_Hz
  by (simp add: lit_10_12 lit_1)

end
